theory Spec2Isabelle
  imports Complex_Main "HOL-Library.Monad_Syntax"
begin

section \<open>Floating-point values\<close>

text \<open>
  A tensor entry is a float. Its values are modelled as the real numbers together with
  the three special values of IEEE arithmetic, which the programs create themselves
  (\<^verbatim>\<open>float('-inf')\<close> in the causal mask, \<^verbatim>\<open>0/0\<close> in the mean of an empty
  dimension) and test for (\<^verbatim>\<open>torch.isnan\<close>). Rounding, overflow and the sign of zero
  are not modelled: every operation on finite values is the exact real operation.
\<close>

datatype fval = Fin real | PInf | NInf | NaN

fun fadd :: "fval \<Rightarrow> fval \<Rightarrow> fval" where
  "fadd (Fin a) (Fin b) = Fin (a + b)"
| "fadd NaN _ = NaN"
| "fadd _ NaN = NaN"
| "fadd PInf NInf = NaN"
| "fadd NInf PInf = NaN"
| "fadd PInf _ = PInf"
| "fadd _ PInf = PInf"
| "fadd NInf _ = NInf"
| "fadd _ NInf = NInf"

fun fneg :: "fval \<Rightarrow> fval" where
  "fneg (Fin a) = Fin (- a)"
| "fneg PInf = NInf"
| "fneg NInf = PInf"
| "fneg NaN = NaN"

text \<open>The sign of a product with an infinity; \<open>0 * inf\<close> is NaN.\<close>

definition signed_inf :: "real \<Rightarrow> fval" where
  "signed_inf a = (if a = 0 then NaN else if 0 < a then PInf else NInf)"

fun fmul :: "fval \<Rightarrow> fval \<Rightarrow> fval" where
  "fmul (Fin a) (Fin b) = Fin (a * b)"
| "fmul NaN _ = NaN"
| "fmul _ NaN = NaN"
| "fmul (Fin a) PInf = signed_inf a"
| "fmul (Fin a) NInf = signed_inf (- a)"
| "fmul PInf (Fin b) = signed_inf b"
| "fmul NInf (Fin b) = signed_inf (- b)"
| "fmul PInf PInf = PInf"
| "fmul NInf NInf = PInf"
| "fmul PInf NInf = NInf"
| "fmul NInf PInf = NInf"

text \<open>
  Division: \<open>0/0\<close> and \<open>inf/inf\<close> are NaN, a nonzero finite value over zero is an
  infinity of the sign of the numerator, a finite value over an infinity is zero.
\<close>

fun fdiv :: "fval \<Rightarrow> fval \<Rightarrow> fval" where
  "fdiv (Fin a) (Fin b) = (if b = 0 then signed_inf a else Fin (a / b))"
| "fdiv NaN _ = NaN"
| "fdiv _ NaN = NaN"
| "fdiv (Fin a) PInf = Fin 0"
| "fdiv (Fin a) NInf = Fin 0"
| "fdiv PInf (Fin b) = (if 0 \<le> b then PInf else NInf)"
| "fdiv NInf (Fin b) = (if 0 \<le> b then NInf else PInf)"
| "fdiv PInf PInf = NaN"
| "fdiv PInf NInf = NaN"
| "fdiv NInf PInf = NaN"
| "fdiv NInf NInf = NaN"

fun fsqrt :: "fval \<Rightarrow> fval" where
  "fsqrt (Fin a) = (if a < 0 then NaN else Fin (sqrt a))"
| "fsqrt PInf = PInf"
| "fsqrt NInf = NaN"
| "fsqrt NaN = NaN"

fun isnan :: "fval \<Rightarrow> bool" where
  "isnan NaN = True"
| "isnan _ = False"

text \<open>\<^verbatim>\<open>x > 0\<close> on floats: false on NaN.\<close>

fun fpos :: "fval \<Rightarrow> bool" where
  "fpos (Fin a) = (0 < a)"
| "fpos PInf = True"
| "fpos NInf = False"
| "fpos NaN = False"

instantiation fval :: "{zero, one, plus, minus, uminus, times, inverse}"
begin

definition zero_fval :: fval where "zero_fval = Fin 0"
definition one_fval :: fval where "one_fval = Fin 1"
definition plus_fval :: "fval \<Rightarrow> fval \<Rightarrow> fval" where "plus_fval a b = fadd a b"
definition uminus_fval :: "fval \<Rightarrow> fval" where "uminus_fval a = fneg a"
definition minus_fval :: "fval \<Rightarrow> fval \<Rightarrow> fval" where "minus_fval a b = fadd a (fneg b)"
definition times_fval :: "fval \<Rightarrow> fval \<Rightarrow> fval" where "times_fval a b = fmul a b"
definition divide_fval :: "fval \<Rightarrow> fval \<Rightarrow> fval" where "divide_fval a b = fdiv a b"
definition inverse_fval :: "fval \<Rightarrow> fval" where "inverse_fval a = fdiv (Fin 1) a"

instance ..

end

lemma fadd_commute: "fadd a b = fadd b a"
  by (cases a; cases b) simp_all

lemma fadd_assoc: "fadd (fadd a b) c = fadd a (fadd b c)"
  by (cases a; cases b; cases c) simp_all

lemma fadd_zero: "fadd (Fin 0) a = a"
  by (cases a) simp_all

instance fval :: comm_monoid_add
proof
  fix a b c :: fval
  show "a + b + c = a + (b + c)"
    by (simp add: plus_fval_def fadd_assoc)
  show "a + b = b + a"
    by (simp add: plus_fval_def fadd_commute)
  show "0 + a = a"
    by (simp add: plus_fval_def zero_fval_def fadd_zero)
qed

lemma Fin_plus [simp]: "Fin a + Fin b = Fin (a + b)"
  by (simp add: plus_fval_def)

lemma Fin_minus [simp]: "Fin a - Fin b = Fin (a - b)"
  by (simp add: minus_fval_def)

lemma Fin_times [simp]: "Fin a * Fin b = Fin (a * b)"
  by (simp add: times_fval_def)

lemma Fin_uminus [simp]: "- Fin a = Fin (- a)"
  by (simp add: uminus_fval_def)

lemma Fin_divide [simp]: "b \<noteq> 0 \<Longrightarrow> Fin a / Fin b = Fin (a / b)"
  by (simp add: divide_fval_def)



section \<open>Tensors\<close>

text \<open>
  A tensor is its shape and its entries, read by a multi-index. Entries outside the
  shape carry no meaning; every statement about entries is about indices inside it.
  An operation of the tensor framework that raises (a shape mismatch, a dimension out of
  range) returns \<open>None\<close>.
\<close>

record 'a tensor =
  shape :: "nat list"
  elem :: "nat list \<Rightarrow> 'a"

definition numel :: "'a tensor \<Rightarrow> nat" where
  "numel t = prod_list (shape t)"

text \<open>Row-major position of a multi-index, and back.\<close>

fun ravel :: "nat list \<Rightarrow> nat list \<Rightarrow> nat" where
  "ravel (n # ns) (i # is) = i * prod_list ns + ravel ns is"
| "ravel _ _ = 0"

fun unravel :: "nat list \<Rightarrow> nat \<Rightarrow> nat list" where
  "unravel [] k = []"
| "unravel (n # ns) k = (k div prod_list ns) # unravel ns (k mod prod_list ns)"

text \<open>\<^verbatim>\<open>torch.tensor(data).reshape(shape)\<close>: a tensor from its entries in row-major order.\<close>

definition from_flat :: "nat list \<Rightarrow> 'a list \<Rightarrow> 'a tensor" where
  "from_flat s xs = \<lparr>shape = s, elem = (\<lambda>idx. xs ! ravel s idx)\<rparr>"

definition tmap :: "('a \<Rightarrow> 'b) \<Rightarrow> 'a tensor \<Rightarrow> 'b tensor" where
  "tmap f t = \<lparr>shape = shape t, elem = (\<lambda>idx. f (elem t idx))\<rparr>"

text \<open>\<^verbatim>\<open>t.sum(dim=k)\<close>; a dimension the tensor does not have raises IndexError.\<close>

definition sum_dim :: "nat \<Rightarrow> fval tensor \<Rightarrow> fval tensor option" where
  "sum_dim k t =
     (if k < length (shape t)
      then Some \<lparr>shape = take k (shape t) @ drop (Suc k) (shape t),
                 elem = (\<lambda>idx. \<Sum>j<shape t ! k. elem t (take k idx @ [j] @ drop k idx))\<rparr>
      else None)"

text \<open>\<^verbatim>\<open>t.mean(dim=k)\<close>: the sum over the dimension divided by its size (NaN when it is 0).\<close>

definition mean_dim :: "nat \<Rightarrow> fval tensor \<Rightarrow> fval tensor option" where
  "mean_dim k t =
     (case sum_dim k t of
        None \<Rightarrow> None
      | Some s \<Rightarrow> Some (tmap (\<lambda>v. v / Fin (real (shape t ! k))) s))"

text \<open>\<^verbatim>\<open>t.sum()\<close> and \<^verbatim>\<open>t.mean()\<close> over all entries.\<close>

definition sum_all :: "fval tensor \<Rightarrow> fval" where
  "sum_all t = (\<Sum>k<numel t. elem t (unravel (shape t) k))"

definition mean_all :: "fval tensor \<Rightarrow> fval" where
  "mean_all t = sum_all t / Fin (real (numel t))"

text \<open>
  \<^verbatim>\<open>b ** s\<close> for a Python float \<open>b\<close> and a finite exponent: a negative base has a
  power only at an integral exponent.
\<close>

definition fpow :: "real \<Rightarrow> real \<Rightarrow> fval" where
  "fpow b s =
     (if 0 < b then Fin (b powr s)
      else if b = 0 then (if 0 < s then Fin 0 else if s = 0 then Fin 1 else PInf)
      else if s = real_of_int \<lfloor>s\<rfloor> then Fin (b powi \<lfloor>s\<rfloor>) else NaN)"

section \<open>StyleGAN: path length penalty\<close>

text \<open>
  \<^verbatim>\<open>PathLengthPenalty\<close> keeps the exponent \<open>beta\<close> and two stored scalars, the step
  counter and the moving average.
\<close>

record PathLengthPenalty =
  beta :: real
  steps :: real
  moving_average :: fval

definition PathLengthPenalty_init :: "real \<Rightarrow> PathLengthPenalty" where
  "PathLengthPenalty_init b = \<lparr>beta = b, steps = 0, moving_average = Fin 0\<rparr>"

text \<open>
  \<^verbatim>\<open>PathLengthPenalty.forward\<close>. The random noise and the call of
  \<^verbatim>\<open>torch.autograd.grad\<close> belong to the framework: the model starts from the tensor
  \<open>gradients\<close> that call returns (the gradient of \<^verbatim>\<open>(images * pl_noise).sum()\<close> with
  respect to \<open>styles\<close>, of the shape of \<open>styles\<close>). It returns the loss and the
  module's state after the call.

  The source updates the moving average in place (\<^verbatim>\<open>mul_\<close>, \<^verbatim>\<open>add_\<close>) and then
  calls \<^verbatim>\<open>self.steps.add(1.)\<close>, which builds a new tensor and leaves
  \<^verbatim>\<open>self.steps\<close> as it was: the state after the call has the old step counter.
\<close>

definition PathLengthPenalty_forward ::
  "PathLengthPenalty \<Rightarrow> fval tensor \<Rightarrow> (fval \<times> PathLengthPenalty) option" where
  "PathLengthPenalty_forward self gradients =
     do {
       s2 \<leftarrow> sum_dim 2 (tmap (\<lambda>v. v * v) gradients);
       m1 \<leftarrow> mean_dim 1 s2;
       let path_lengths = tmap fsqrt m1;
       let loss =
         (if 0 < steps self
          then let a = moving_average self / (Fin 1 - fpow (beta self) (steps self))
               in mean_all (tmap (\<lambda>p. (p - a) * (p - a)) path_lengths)
          else Fin 0);
       let mean = mean_all path_lengths;
       let self' =
         (if \<not> isnan mean
          then self\<lparr>moving_average :=
                 moving_average self * Fin (beta self) + Fin (1 - beta self) * mean\<rparr>
          else self);
       Some (loss, self')
     }"

subsection \<open>Properties of the path length penalty\<close>

lemma sqrt_25: "sqrt 25 = 5"
  using real_sqrt_abs [of 5] by simp

text \<open>No call changes the step counter or the exponent.\<close>

lemma PathLengthPenalty_forward_steps:
  assumes "PathLengthPenalty_forward self gradients = Some (loss, self')"
  shows "steps self' = steps self \<and> beta self' = beta self"
  using assms
  by (auto simp: PathLengthPenalty_forward_def Let_def split: bind_splits if_splits)

text \<open>
  Claim C3. For gradients of shape \<open>[B, L, D]\<close> (batch, layers, features) the call returns
  a loss. With a step counter that is not positive (0 in particular) the loss is exactly 0.
  With a positive step counter the loss is the mean over the batch of
  \<open>(path_length b - a)\<^sup>2\<close>, where \<open>path_length b\<close> is the square root of the mean over
  the layers of the sum over the features of the squared gradients, and \<open>a\<close> is the
  bias-corrected moving average \<open>moving_average / (1 - beta ** steps)\<close>.
\<close>

theorem PathLengthPenalty_forward_loss:
  assumes "shape gradients = [B, L, D]"
  shows "\<exists>loss self'. PathLengthPenalty_forward self gradients = Some (loss, self') \<and>
     (steps self \<le> 0 \<longrightarrow> loss = Fin 0) \<and>
     (0 < steps self \<longrightarrow>
        (let a = moving_average self / (Fin 1 - fpow (beta self) (steps self));
             path_length =
               (\<lambda>b. fsqrt ((\<Sum>l<L. \<Sum>d<D. elem gradients [b, l, d] * elem gradients [b, l, d])
                             / Fin (real L)))
         in loss = (\<Sum>b<B. (path_length b - a) * (path_length b - a)) / Fin (real B)))"
  using assms
  by (simp add: PathLengthPenalty_forward_def sum_dim_def mean_dim_def tmap_def
      mean_all_def sum_all_def numel_def Let_def)

text \<open>
  The theorem at one sample with the gradient \<open>(3, 4)\<close>, whose path length is 5: from the
  initial state the loss is 0; with step counter 1, exponent \<open>1/2\<close> and moving average 1
  the corrected average is 2 and the loss is \<open>(5 - 2)\<^sup>2 = 9\<close>.
\<close>

theorem PathLengthPenalty_forward_loss_witness:
  "shape (from_flat [1, 1, 2] [Fin 3, Fin 4]) = [1, 1, 2] \<and>
   (\<exists>loss self'. PathLengthPenalty_forward (PathLengthPenalty_init (1 / 2))
        (from_flat [1, 1, 2] [Fin 3, Fin 4]) = Some (loss, self') \<and> loss = Fin 0) \<and>
   (\<exists>loss self'. PathLengthPenalty_forward \<lparr>beta = 1 / 2, steps = 1, moving_average = Fin 1\<rparr>
        (from_flat [1, 1, 2] [Fin 3, Fin 4]) = Some (loss, self') \<and> loss = Fin 9)"
  using PathLengthPenalty_forward_loss
          [of "from_flat [1, 1, 2] [Fin 3, Fin 4]" 1 1 2 "PathLengthPenalty_init (1 / 2)"]
        PathLengthPenalty_forward_loss
          [of "from_flat [1, 1, 2] [Fin 3, Fin 4]" 1 1 2
              "\<lparr>beta = 1 / 2, steps = 1, moving_average = Fin 1\<rparr>"]
  by (simp add: PathLengthPenalty_init_def from_flat_def fpow_def sqrt_25 Let_def
      lessThan_Suc eval_nat_numeral)

text \<open>
  Claim C4. The first call on \<^verbatim>\<open>PathLengthPenalty(0.99)\<close> with one sample whose gradient
  is \<open>(3, 4)\<close>: the batch mean of the path lengths is 5, not NaN, and the moving average
  becomes \<open>0.99 * 0 + 0.01 * 5 = 0.05\<close> as the claim says, but the step counter is still
  0 where the claim has \<open>old_steps + 1 = 1\<close>.
\<close>

theorem PathLengthPenalty_forward_steps_stay_zero:
  "PathLengthPenalty_forward (PathLengthPenalty_init (99 / 100))
       (from_flat [1, 1, 2] [Fin 3, Fin 4])
     = Some (Fin 0, \<lparr>beta = 99 / 100, steps = 0, moving_average = Fin (1 / 20)\<rparr>)"
  by (simp add: PathLengthPenalty_forward_def PathLengthPenalty_init_def from_flat_def
      sum_dim_def mean_dim_def tmap_def mean_all_def sum_all_def numel_def
      lessThan_Suc eval_nat_numeral sqrt_25)

section \<open>U-Net: the Carvana dataset\<close>



text \<open>\<^verbatim>\<open>{key(p): p for p in listing}\<close>: a later file replaces an earlier one with the
  same key; \<^verbatim>\<open>list(d.keys())\<close> has each key once, in the order of first insertion.\<close>

definition dict_of :: "(string \<Rightarrow> string) \<Rightarrow> string list \<Rightarrow> (string \<rightharpoonup> string)" where
  "dict_of key listing = fold (\<lambda>p m. m(key p \<mapsto> p)) listing Map.empty"











lemma dict_of_fold_other:
  "k \<notin> key ` set xs \<Longrightarrow> fold (\<lambda>p m. m(key p \<mapsto> p)) xs m0 k = m0 k"
  by (induction xs arbitrary: m0) auto

lemma dict_of_fold_None:
  "fold (\<lambda>p m. m(key p \<mapsto> p)) xs m0 k = None \<Longrightarrow> k \<notin> key ` set xs"
proof (induction xs arbitrary: m0)
  case Nil
  then show ?case by simp
next
  case (Cons x xs)
  from Cons.prems have k: "k \<notin> key ` set xs"
    using Cons.IH by (simp del: fun_upd_apply)
  have "key x \<noteq> k"
  proof
    assume "key x = k"
    then have "fold (\<lambda>p m. m(key p \<mapsto> p)) xs (m0(key x \<mapsto> x)) k = Some x"
      using dict_of_fold_other [OF k, of "m0(key x \<mapsto> x)"] by simp
    then show False using Cons.prems by (simp del: fun_upd_apply)
  qed
  with k show ?case by simp
qed


lemma dict_of_None: "dict_of key xs k = None \<Longrightarrow> k \<notin> key ` set xs"
  using dict_of_fold_None [of key xs Map.empty k] by (simp add: dict_of_def)












subsection \<open>Slicing, concatenation, broadcasting\<close>

text \<open>\<^verbatim>\<open>t[..., n:, ...]\<close> and \<^verbatim>\<open>t[..., :n, ...]\<close> on dimension \<open>k\<close>, for \<open>n \<ge> 0\<close>: a
  slice is clamped to the dimension, it never raises.\<close>

definition slice_from :: "nat \<Rightarrow> nat \<Rightarrow> 'a tensor \<Rightarrow> 'a tensor option" where
  "slice_from k n t =
     (if k < length (shape t)
      then Some \<lparr>shape = (shape t)[k := shape t ! k - n],
                 elem = (\<lambda>idx. elem t (idx[k := idx ! k + n]))\<rparr>
      else None)"

definition slice_to :: "nat \<Rightarrow> nat \<Rightarrow> 'a tensor \<Rightarrow> 'a tensor option" where
  "slice_to k n t =
     (if k < length (shape t)
      then Some \<lparr>shape = (shape t)[k := min n (shape t ! k)], elem = elem t\<rparr>
      else None)"

text \<open>\<^verbatim>\<open>torch.cat((a, b), dim=k)\<close>: the shapes agree outside dimension \<open>k\<close>.\<close>

definition cat :: "nat \<Rightarrow> 'a tensor \<Rightarrow> 'a tensor \<Rightarrow> 'a tensor option" where
  "cat k a b =
     (if k < length (shape a) \<and> length (shape a) = length (shape b) \<and>
         (shape a)[k := 0] = (shape b)[k := 0]
      then Some \<lparr>shape = (shape a)[k := shape a ! k + shape b ! k],
                 elem = (\<lambda>idx. if idx ! k < shape a ! k then elem a idx
                                else elem b (idx[k := idx ! k - shape a ! k]))\<rparr>
      else None)"

text \<open>\<^verbatim>\<open>t.unsqueeze(k)\<close>, which indexing with \<^verbatim>\<open>None\<close> does: a new dimension of size 1.\<close>

definition unsqueeze :: "nat \<Rightarrow> 'a tensor \<Rightarrow> 'a tensor option" where
  "unsqueeze k t =
     (if k \<le> length (shape t)
      then Some \<lparr>shape = take k (shape t) @ [1] @ drop k (shape t),
                 elem = (\<lambda>idx. elem t (take k idx @ drop (Suc k) idx))\<rparr>
      else None)"

text \<open>Broadcasting: shapes are aligned at the last dimension; two sizes are compatible
  when they are equal or one of them is 1.\<close>

definition bdim :: "nat \<Rightarrow> nat \<Rightarrow> nat option" where
  "bdim a b = (if a = b then Some a else if a = 1 then Some b else if b = 1 then Some a else None)"

fun bshape_rev :: "nat list \<Rightarrow> nat list \<Rightarrow> nat list option" where
  "bshape_rev [] ys = Some ys"
| "bshape_rev xs [] = Some xs"
| "bshape_rev (x # xs) (y # ys) =
     (case bdim x y of
        None \<Rightarrow> None
      | Some d \<Rightarrow> (case bshape_rev xs ys of None \<Rightarrow> None | Some ds \<Rightarrow> Some (d # ds)))"

definition broadcast_shapes :: "nat list \<Rightarrow> nat list \<Rightarrow> nat list option" where
  "broadcast_shapes s1 s2 = map_option rev (bshape_rev (rev s1) (rev s2))"

text \<open>The index into an operand of shape \<open>s\<close> for the index \<open>idx\<close> of the result.\<close>

definition bindex :: "nat list \<Rightarrow> nat list \<Rightarrow> nat list" where
  "bindex s idx = map2 (\<lambda>n i. if n = 1 then 0 else i) s (drop (length idx - length s) idx)"

definition bop :: "('a \<Rightarrow> 'b \<Rightarrow> 'c) \<Rightarrow> 'a tensor \<Rightarrow> 'b tensor \<Rightarrow> 'c tensor option" where
  "bop f a b =
     (case broadcast_shapes (shape a) (shape b) of
        None \<Rightarrow> None
      | Some s \<Rightarrow> Some \<lparr>shape = s,
                        elem = (\<lambda>idx. f (elem a (bindex (shape a) idx))
                                         (elem b (bindex (shape b) idx)))\<rparr>)"

fun fcos :: "fval \<Rightarrow> fval" where
  "fcos (Fin a) = Fin (cos a)"
| "fcos _ = NaN"

fun fsin :: "fval \<Rightarrow> fval" where
  "fsin (Fin a) = Fin (sin a)"
| "fsin _ = NaN"

text \<open>\<^verbatim>\<open>torch.arange(n)\<close> as floats, and \<^verbatim>\<open>torch.einsum('n,d->nd', a, b)\<close>.\<close>

definition arange :: "nat \<Rightarrow> fval tensor" where
  "arange n = \<lparr>shape = [n], elem = (\<lambda>idx. Fin (real (idx ! 0)))\<rparr>"

definition einsum_n_d :: "fval tensor \<Rightarrow> fval tensor \<Rightarrow> fval tensor option" where
  "einsum_n_d a b =
     (case (shape a, shape b) of
        ([n], [d]) \<Rightarrow> Some \<lparr>shape = [n, d], elem = (\<lambda>idx. elem a [idx ! 0] * elem b [idx ! 1])\<rparr>
      | _ \<Rightarrow> None)"

section \<open>RETRO: rotary positional embeddings\<close>

record RotaryPositionalEmbeddings =
  theta :: "fval tensor"

text \<open>\<^verbatim>\<open>1. / (base ** (torch.arange(0, d, 2).float() / d))\<close>: one entry for each of
  \<open>0, 2, 4, \<dots> < d\<close>.\<close>

definition RotaryPositionalEmbeddings_init :: "nat \<Rightarrow> int \<Rightarrow> RotaryPositionalEmbeddings" where
  "RotaryPositionalEmbeddings_init d base =
     \<lparr>theta = \<lparr>shape = [(d + 1) div 2],
                elem = (\<lambda>idx. Fin 1 / fpow (real_of_int base) (real (2 * (idx ! 0)) / real d))\<rparr>\<rparr>"

definition RotaryPositionalEmbeddings_forward ::
  "RotaryPositionalEmbeddings \<Rightarrow> fval tensor \<Rightarrow> fval tensor option" where
  "RotaryPositionalEmbeddings_forward self x =
     (case shape x of
        [batch_size, seq_len, n_heads, d] \<Rightarrow>
          do {
            let d_2 = d div 2;
            let seq_idx = arange seq_len;
            idx_theta \<leftarrow> einsum_n_d seq_idx (theta self);
            idx_theta2 \<leftarrow> cat 1 idx_theta idx_theta;
            upper \<leftarrow> slice_from 3 d_2 x;
            lower \<leftarrow> slice_to 3 d_2 x;
            neg_half_x \<leftarrow> cat 3 (tmap uminus upper) lower;
            cos_b \<leftarrow> unsqueeze 0 (tmap fcos idx_theta2) \<bind> unsqueeze 2;
            sin_b \<leftarrow> unsqueeze 0 (tmap fsin idx_theta2) \<bind> unsqueeze 2;
            x_cos \<leftarrow> bop (*) x cos_b;
            n_sin \<leftarrow> bop (*) neg_half_x sin_b;
            bop (+) x_cos n_sin
          }
      | _ \<Rightarrow> None)"

lemma bdim_simps [simp]: "bdim a a = Some a" "bdim a (Suc 0) = Some a" "bdim (Suc 0) b = Some b"
  by (auto simp: bdim_def)

lemma in_dim [simp]: "i < n \<Longrightarrow> (if n = Suc 0 then 0 else i) = i"
  by auto

lemma fmul_fneg: "(- a) * b = - (a * (b::fval))"
  by (cases a; cases b) (auto simp: times_fval_def uminus_fval_def signed_inf_def)

lemma fsub_def: "a - b = a + - (b::fval)"
  by (simp add: minus_fval_def plus_fval_def uminus_fval_def)

lemma integral_uminus: "(- t = real_of_int \<lfloor>- t\<rfloor>) = (t = real_of_int \<lfloor>t\<rfloor>)"
proof
  assume "- t = real_of_int \<lfloor>- t\<rfloor>"
  then have "t = real_of_int (- \<lfloor>- t\<rfloor>)" by simp
  then show "t = real_of_int \<lfloor>t\<rfloor>" by (metis floor_of_int)
next
  assume "t = real_of_int \<lfloor>t\<rfloor>"
  then have "- t = real_of_int (- \<lfloor>t\<rfloor>)" by simp
  then show "- t = real_of_int \<lfloor>- t\<rfloor>" by (metis floor_of_int)
qed

lemma fpow_inverse: "Fin 1 / fpow b t = fpow b (- t)"
proof -
  consider "0 < b" | "b = 0" | "b < 0" by linarith
  then show ?thesis
  proof cases
    case 1
    then show ?thesis by (simp add: fpow_def powr_minus_divide)
  next
    case 2
    then show ?thesis by (simp add: fpow_def divide_fval_def signed_inf_def)
  next
    case 3
    show ?thesis
    proof (cases "t = real_of_int \<lfloor>t\<rfloor>")
      case True
      then have "- t = real_of_int (- \<lfloor>t\<rfloor>)" by simp
      then have fl: "\<lfloor>- t\<rfloor> = - \<lfloor>t\<rfloor>" by (metis floor_of_int)
      have nz: "b powi \<lfloor>t\<rfloor> \<noteq> 0" using 3 by simp
      have "Fin 1 / Fin (b powi \<lfloor>t\<rfloor>) = Fin (b powi (- \<lfloor>t\<rfloor>))"
        using nz by (simp add: power_int_minus field_simps)
      then show ?thesis
        using 3 True fl integral_uminus [of t] by (simp add: fpow_def)
    next
      case False
      then show ?thesis
        using 3 integral_uminus [of t] by (simp add: fpow_def divide_fval_def)
    qed
  qed
qed

lemma Rotary_even:
  assumes "shape x = [batch_size, seq_len, n_heads, 2 * k]"
  shows "\<exists>rx. RotaryPositionalEmbeddings_forward (RotaryPositionalEmbeddings_init (2 * k) base) x = Some rx \<and>
     shape rx = shape x \<and>
     (\<forall>b<batch_size. \<forall>m<seq_len. \<forall>h<n_heads. \<forall>i<k.
       (let th = fpow (real_of_int base) (- (real (2 * i) / real (2 * k)));
          x1 = elem x [b, m, h, i]; x2 = elem x [b, m, h, i + k]
        in elem rx [b, m, h, i] = x1 * fcos (Fin (real m) * th) - x2 * fsin (Fin (real m) * th) \<and>
         elem rx [b, m, h, i + k] = x2 * fcos (Fin (real m) * th) + x1 * fsin (Fin (real m) * th)))"
proof -
  have k: "(2 * k + 1) div 2 = k" by simp
  show ?thesis
    using assms
    by (simp add: RotaryPositionalEmbeddings_forward_def RotaryPositionalEmbeddings_init_def
     arange_def einsum_n_d_def cat_def slice_from_def slice_to_def unsqueeze_def tmap_def bop_def
     broadcast_shapes_def bindex_def Let_def fpow_inverse fmul_fneg fsub_def k mult_2 [symmetric])
qed

lemma bdim_None: "a \<noteq> b \<Longrightarrow> a \<noteq> Suc 0 \<Longrightarrow> b \<noteq> Suc 0 \<Longrightarrow> bdim a b = None"
  by (simp add: bdim_def)

lemma Rotary_odd:
  assumes "shape x = [batch_size, seq_len, n_heads, d]" and "odd d" and "d \<noteq> 1"
  shows "RotaryPositionalEmbeddings_forward (RotaryPositionalEmbeddings_init d base) x = None"
proof -
  from \<open>odd d\<close> obtain k where d: "d = 2 * k + 1" by (auto elim: oddE)
  with \<open>d \<noteq> 1\<close> have k0: "k \<noteq> 0" by simp
  have k: "(2 * k + 1 + 1) div 2 = k + 1" "(2 * k + 1) div 2 = k" by simp_all
  show ?thesis
    using assms(1) k0 unfolding d
    by (simp add: RotaryPositionalEmbeddings_forward_def RotaryPositionalEmbeddings_init_def
     arange_def einsum_n_d_def cat_def slice_from_def slice_to_def unsqueeze_def tmap_def bop_def
     broadcast_shapes_def Let_def k bdim_None)
qed

text \<open>
  Claim C6. For \<open>x\<close> of shape \<open>[batch_size, seq_len, n_heads, d]\<close> and the module built
  for the same \<open>d\<close>: when \<open>d\<close> is even the call returns a tensor of the shape of \<open>x\<close>
  whose entries at position \<open>m\<close> and features \<open>i < d/2\<close> and \<open>i + d/2\<close> are
  \<open>x\<^sub>i cos(m \<theta>\<^sub>i) - x\<^sub>i\<^sub>+\<^sub>d\<^sub>/\<^sub>2 sin(m \<theta>\<^sub>i)\<close> and
  \<open>x\<^sub>i\<^sub>+\<^sub>d\<^sub>/\<^sub>2 cos(m \<theta>\<^sub>i) + x\<^sub>i sin(m \<theta>\<^sub>i)\<close> with \<open>\<theta>\<^sub>i = base ** (- 2i/d)\<close>.
  Evenness is a precondition: for an odd \<open>d\<close> other than 1 the concatenated angles
  have \<open>d + 1\<close> columns, the product with \<open>x\<close> does not broadcast and the call raises.
\<close>

theorem RotaryPositionalEmbeddings_forward_pairs:
  assumes "shape x = [batch_size, seq_len, n_heads, d]"
  shows "(even d \<longrightarrow>
     (\<exists>rx. RotaryPositionalEmbeddings_forward (RotaryPositionalEmbeddings_init d base) x = Some rx \<and>
       shape rx = shape x \<and>
       (\<forall>b<batch_size. \<forall>m<seq_len. \<forall>h<n_heads. \<forall>i<d div 2.
         (let th = fpow (real_of_int base) (- (real (2 * i) / real d));
              x1 = elem x [b, m, h, i]; x2 = elem x [b, m, h, i + d div 2]
          in elem rx [b, m, h, i] = x1 * fcos (Fin (real m) * th) - x2 * fsin (Fin (real m) * th) \<and>
             elem rx [b, m, h, i + d div 2]
               = x2 * fcos (Fin (real m) * th) + x1 * fsin (Fin (real m) * th))))) \<and>
    (odd d \<and> d \<noteq> 1 \<longrightarrow>
       RotaryPositionalEmbeddings_forward (RotaryPositionalEmbeddings_init d base) x = None)"
proof (intro conjI impI)
  assume "even d"
  then obtain k where d: "d = 2 * k" by (auto elim: evenE)
  show "\<exists>rx. RotaryPositionalEmbeddings_forward (RotaryPositionalEmbeddings_init d base) x = Some rx \<and>
       shape rx = shape x \<and>
       (\<forall>b<batch_size. \<forall>m<seq_len. \<forall>h<n_heads. \<forall>i<d div 2.
         (let th = fpow (real_of_int base) (- (real (2 * i) / real d));
              x1 = elem x [b, m, h, i]; x2 = elem x [b, m, h, i + d div 2]
          in elem rx [b, m, h, i] = x1 * fcos (Fin (real m) * th) - x2 * fsin (Fin (real m) * th) \<and>
             elem rx [b, m, h, i + d div 2]
               = x2 * fcos (Fin (real m) * th) + x1 * fsin (Fin (real m) * th)))"
    using Rotary_even [of x batch_size seq_len n_heads k base] assms unfolding d by simp
next
  assume "odd d \<and> d \<noteq> 1"
  then show "RotaryPositionalEmbeddings_forward (RotaryPositionalEmbeddings_init d base) x = None"
    using Rotary_odd [OF assms] by simp
qed

text \<open>
  The theorem at \<open>d = 2\<close>, two positions and the default base, where \<open>\<theta>\<^sub>0 = 1\<close>: position 0
  is unchanged, position 1 is rotated by the angle 1; and at \<open>d = 3\<close>, where the call raises.
\<close>

theorem RotaryPositionalEmbeddings_forward_pairs_witness:
  "shape (from_flat [1, 2, 1, 2] [Fin 1, Fin 2, Fin 3, Fin 4]) = [1, 2, 1, 2] \<and>
   (\<exists>rx. RotaryPositionalEmbeddings_forward (RotaryPositionalEmbeddings_init 2 10000)
            (from_flat [1, 2, 1, 2] [Fin 1, Fin 2, Fin 3, Fin 4]) = Some rx \<and>
      shape rx = [1, 2, 1, 2] \<and>
      elem rx [0, 0, 0, 0] = Fin 1 \<and> elem rx [0, 0, 0, 1] = Fin 2 \<and>
      elem rx [0, 1, 0, 0] = Fin (3 * cos 1 - 4 * sin 1) \<and>
      elem rx [0, 1, 0, 1] = Fin (4 * cos 1 + 3 * sin 1)) \<and>
   RotaryPositionalEmbeddings_forward (RotaryPositionalEmbeddings_init 3 10000)
      (from_flat [1, 1, 1, 3] [Fin 1, Fin 2, Fin 3]) = None"
  using RotaryPositionalEmbeddings_forward_pairs
          [of "from_flat [1, 2, 1, 2] [Fin 1, Fin 2, Fin 3, Fin 4]" 1 2 1 2 10000]
        RotaryPositionalEmbeddings_forward_pairs
          [of "from_flat [1, 1, 1, 3] [Fin 1, Fin 2, Fin 3]" 1 1 1 3 10000]
  by (auto simp: from_flat_def fpow_def Let_def)


subsection \<open>Reshaping\<close>

text \<open>\<^verbatim>\<open>t.reshape(s)\<close> for explicit sizes: the entries keep their row-major order. The
  model of \<^verbatim>\<open>t.view(s)\<close> is the same: whether a view exists depends on the strides of
  \<open>t\<close>, which are not modelled.\<close>

definition reshape :: "'a tensor \<Rightarrow> nat list \<Rightarrow> 'a tensor option" where
  "reshape t s =
     (if prod_list s = numel t
      then Some \<lparr>shape = s, elem = (\<lambda>idx. elem t (unravel (shape t) (ravel s idx)))\<rparr>
      else None)"

text \<open>\<^verbatim>\<open>t.reshape(*pre, -1)\<close>: the last size is inferred; the known sizes must have a
  nonzero product that divides the number of entries.\<close>

definition reshape_infer_last :: "'a tensor \<Rightarrow> nat list \<Rightarrow> 'a tensor option" where
  "reshape_infer_last t pre =
     (if 0 < prod_list pre \<and> numel t mod prod_list pre = 0
      then reshape t (pre @ [numel t div prod_list pre])
      else None)"

subsection \<open>Layers of the framework\<close>

type_synonym entries = "nat list \<Rightarrow> fval"

text \<open>\<^verbatim>\<open>nn.Linear(in_features, out_features)\<close>, applied to the last dimension.\<close>

record Linear =
  weight :: "fval tensor"
  bias :: "fval tensor"

definition Linear_init :: "nat \<Rightarrow> nat \<Rightarrow> entries \<Rightarrow> entries \<Rightarrow> Linear" where
  "Linear_init in_features out_features w b =
     \<lparr>weight = \<lparr>shape = [out_features, in_features], elem = w\<rparr>,
      bias = \<lparr>shape = [out_features], elem = b\<rparr>\<rparr>"

definition Linear_forward :: "Linear \<Rightarrow> fval tensor \<Rightarrow> fval tensor option" where
  "Linear_forward self x =
     (case shape (weight self) of
        [out_features, in_features] \<Rightarrow>
          if shape x \<noteq> [] \<and> last (shape x) = in_features \<and> shape (bias self) = [out_features]
          then Some \<lparr>shape = butlast (shape x) @ [out_features],
                     elem = (\<lambda>idx. (\<Sum>j<in_features. elem x (butlast idx @ [j]) *
                                          elem (weight self) [last idx, j])
                                   + elem (bias self) [last idx])\<rparr>
          else None
      | _ \<Rightarrow> None)"

text \<open>\<^verbatim>\<open>nn.LayerNorm(d)\<close> over the last dimension, with the biased variance.\<close>

record LayerNorm =
  ln_weight :: "fval tensor"
  ln_bias :: "fval tensor"
  ln_eps :: real

definition LayerNorm_init :: "nat \<Rightarrow> entries \<Rightarrow> entries \<Rightarrow> LayerNorm" where
  "LayerNorm_init d w b =
     \<lparr>ln_weight = \<lparr>shape = [d], elem = w\<rparr>, ln_bias = \<lparr>shape = [d], elem = b\<rparr>,
      ln_eps = 1 / 100000\<rparr>"

definition LayerNorm_forward :: "LayerNorm \<Rightarrow> fval tensor \<Rightarrow> fval tensor option" where
  "LayerNorm_forward self x =
     (case shape (ln_weight self) of
        [d] \<Rightarrow>
          if shape x \<noteq> [] \<and> last (shape x) = d \<and> shape (ln_bias self) = [d]
          then Some \<lparr>shape = shape x,
                 elem = (\<lambda>idx.
                   let row = (\<lambda>j. elem x (butlast idx @ [j]));
                       mean = (\<Sum>j<d. row j) / Fin (real d);
                       var = (\<Sum>j<d. (row j - mean) * (row j - mean)) / Fin (real d)
                   in (elem x idx - mean) / fsqrt (var + Fin (ln_eps self))
                        * elem (ln_weight self) [last idx] + elem (ln_bias self) [last idx])\<rparr>
          else None
      | _ \<Rightarrow> None)"

fun fexp :: "fval \<Rightarrow> fval" where
  "fexp (Fin a) = Fin (exp a)"
| "fexp PInf = PInf"
| "fexp NInf = Fin 0"
| "fexp NaN = NaN"

text \<open>\<^verbatim>\<open>nn.Softmax(dim=-1)\<close>: \<open>exp x\<^sub>j / \<Sum>\<^sub>k exp x\<^sub>k\<close> along the last dimension.\<close>

definition softmax :: "fval tensor \<Rightarrow> fval tensor option" where
  "softmax t =
     (if shape t = [] then Some (tmap (\<lambda>v. fexp v / fexp v) t)
      else Some \<lparr>shape = shape t,
                 elem = (\<lambda>idx. fexp (elem t idx) /
                           (\<Sum>j<last (shape t). fexp (elem t (butlast idx @ [j]))))\<rparr>)"



text \<open>\<^verbatim>\<open>torch.tril\<close> on the last two dimensions, \<^verbatim>\<open>t.new_ones(s)\<close> and
  \<^verbatim>\<open>t.masked_fill(m, v)\<close>, whose mask broadcasts to the shape of \<open>t\<close>.\<close>

definition ones :: "nat list \<Rightarrow> fval tensor" where
  "ones s = \<lparr>shape = s, elem = (\<lambda>idx. Fin 1)\<rparr>"



section \<open>RETRO: self-attention\<close>

text \<open>The initial values of the trainable parameters of an attention layer, which the
  constructors of the framework's layers draw at random.\<close>

record attention_parameters =
  query_w :: entries
  query_b :: entries
  key_w :: entries
  key_b :: entries
  value_w :: entries
  value_b :: entries
  output_w :: entries
  output_b :: entries
  norm_w :: entries
  norm_b :: entries

record SelfAttention =
  is_causal :: bool
  n_heads :: nat
  d_k :: nat
  scale :: real
  query :: Linear
  key :: Linear
  val :: Linear
  norm_layer :: LayerNorm
  rotary_pe :: RotaryPositionalEmbeddings
  output_layer :: Linear








subsection \<open>Row-major positions\<close>

lemma ravel_less: "list_all2 (<) idx s \<Longrightarrow> ravel s idx < prod_list s"
proof (induction idx s rule: list_all2_induct)
  case Nil
  then show ?case by simp
next
  case (Cons i js n ns)
  have "i * prod_list ns + ravel ns js < i * prod_list ns + prod_list ns"
    using Cons.IH by simp
  also have "\<dots> = Suc i * prod_list ns" by simp
  also have "\<dots> \<le> n * prod_list ns"
    using Cons.hyps(1) by (intro mult_le_mono1) simp
  finally show ?case by simp
qed

lemma unravel_ravel: "list_all2 (<) idx s \<Longrightarrow> unravel s (ravel s idx) = idx"
proof (induction idx s rule: list_all2_induct)
  case Nil
  then show ?case by simp
next
  case (Cons i js n ns)
  have r: "ravel ns js < prod_list ns"
    using Cons.hyps(2) by (rule ravel_less)
  then show ?case
    using Cons.IH by simp
qed

text \<open>Reading a reshaped tensor at the position of an index of the original one.\<close>

lemma reshape_elem:
  assumes "reshape t s = Some r" and "list_all2 (<) idx (shape t)"
    and "ravel s idx' = ravel (shape t) idx"
  shows "elem r idx' = elem t idx"
  using assms unravel_ravel [OF assms(2)]
  by (auto simp: reshape_def split: if_splits)


subsection \<open>Shapes of the layers' results\<close>

lemma LayerNorm_forward_shape:
  assumes "shape x = s @ [d]"
  shows "\<exists>r. LayerNorm_forward (LayerNorm_init d w b) x = Some r \<and> shape r = shape x"
  using assms by (simp add: LayerNorm_forward_def LayerNorm_init_def)

lemma Linear_forward_shape:
  assumes "shape x = s @ [i]"
  shows "\<exists>r. Linear_forward (Linear_init i o' w b) x = Some r \<and> shape r = s @ [o']"
  using assms by (simp add: Linear_forward_def Linear_init_def)

lemma reshape_shape:
  assumes "prod_list s = numel t"
  shows "\<exists>r. reshape t s = Some r \<and> shape r = s"
  using assms by (simp add: reshape_def)














subsection \<open>Finite entries stay finite\<close>


























text \<open>
  A causal layer with one head, \<open>d_model = 1\<close> and \<open>d_k = 2\<close>, all weights 1 and all
  biases 0 but the bias 1 of the normalisation, on a sequence of two positions.
\<close>

definition p0 :: attention_parameters where
  "p0 = \<lparr>query_w = (\<lambda>_. Fin 1), query_b = (\<lambda>_. Fin 0), key_w = (\<lambda>_. Fin 1), key_b = (\<lambda>_. Fin 0),
          value_w = (\<lambda>_. Fin 1), value_b = (\<lambda>_. Fin 0), output_w = (\<lambda>_. Fin 1), output_b = (\<lambda>_. Fin 0),
          norm_w = (\<lambda>_. Fin 1), norm_b = (\<lambda>_. Fin 1)\<rparr>"











section \<open>RETRO: chunked cross-attention\<close>

text \<open>The start of the Python slice \<^verbatim>\<open>t[i:]\<close> in a dimension of size \<open>n\<close>: a negative
  \<open>i\<close> counts from the end.\<close>

definition py_slice_start :: "nat \<Rightarrow> int \<Rightarrow> nat" where
  "py_slice_start n i = (if i < 0 then nat (max 0 (int n + i)) else min (nat i) n)"

text \<open>\<^verbatim>\<open>t.new_zeros(*sizes)\<close>; a negative size raises.\<close>

definition new_zeros :: "int list \<Rightarrow> fval tensor option" where
  "new_zeros sizes =
     (if list_all (\<lambda>n. 0 \<le> n) sizes
      then Some \<lparr>shape = map nat sizes, elem = (\<lambda>idx. Fin 0)\<rparr>
      else None)"

text \<open>\<^verbatim>\<open>torch.einsum('bcihd,bcnjhd->bchinj', q, k)\<close> and
  \<^verbatim>\<open>torch.einsum('bchinj,bcnjhd->bcihd', attn, v)\<close>, for operands whose shared sizes agree.\<close>

definition einsum_bcihd_bcnjhd :: "fval tensor \<Rightarrow> fval tensor \<Rightarrow> fval tensor option" where
  "einsum_bcihd_bcnjhd q k =
     (let sq = shape q; sk = shape k
      in if length sq = 5 \<and> length sk = 6 \<and> sq ! 0 = sk ! 0 \<and> sq ! 1 = sk ! 1 \<and>
            sq ! 3 = sk ! 4 \<and> sq ! 4 = sk ! 5
         then Some \<lparr>shape = [sq ! 0, sq ! 1, sq ! 3, sq ! 2, sk ! 2, sk ! 3],
                    elem = (\<lambda>idx. \<Sum>d<sq ! 4.
                              elem q [idx ! 0, idx ! 1, idx ! 3, idx ! 2, d] *
                              elem k [idx ! 0, idx ! 1, idx ! 4, idx ! 5, idx ! 2, d])\<rparr>
         else None)"

definition einsum_bchinj_bcnjhd :: "fval tensor \<Rightarrow> fval tensor \<Rightarrow> fval tensor option" where
  "einsum_bchinj_bcnjhd a v =
     (let sa = shape a; sv = shape v
      in if length sa = 6 \<and> length sv = 6 \<and> sa ! 0 = sv ! 0 \<and> sa ! 1 = sv ! 1 \<and>
            sa ! 2 = sv ! 4 \<and> sa ! 4 = sv ! 2 \<and> sa ! 5 = sv ! 3
         then Some \<lparr>shape = [sa ! 0, sa ! 1, sa ! 3, sa ! 2, sv ! 5],
                    elem = (\<lambda>idx. \<Sum>n<sa ! 4. \<Sum>j<sa ! 5.
                              elem a [idx ! 0, idx ! 1, idx ! 3, idx ! 2, n, j] *
                              elem v [idx ! 0, idx ! 1, n, j, idx ! 3, idx ! 4])\<rparr>
         else None)"

record ChunkedCrossAttention =
  cca_chunk_len :: nat
  cca_n_heads :: nat
  cca_d_k :: nat
  cca_scale :: real
  cca_query :: Linear
  cca_key :: Linear
  cca_val :: Linear
  cca_norm :: LayerNorm
  cca_output :: Linear

text \<open>\<^verbatim>\<open>ChunkedCrossAttention.__init__\<close>; \<^verbatim>\<open>1 / math.sqrt(0)\<close> raises ZeroDivisionError.\<close>

definition ChunkedCrossAttention_init ::
  "nat \<Rightarrow> nat \<Rightarrow> nat \<Rightarrow> nat \<Rightarrow> attention_parameters \<Rightarrow> ChunkedCrossAttention option" where
  "ChunkedCrossAttention_init d_model nh dk chunk_len p =
     (if dk = 0 then None
      else Some \<lparr>cca_chunk_len = chunk_len, cca_n_heads = nh, cca_d_k = dk,
                 cca_scale = 1 / sqrt (real dk),
                 cca_query = Linear_init d_model (nh * dk) (query_w p) (query_b p),
                 cca_key = Linear_init d_model (nh * dk) (key_w p) (key_b p),
                 cca_val = Linear_init d_model (nh * dk) (value_w p) (value_b p),
                 cca_norm = LayerNorm_init d_model (norm_w p) (norm_b p),
                 cca_output = Linear_init (nh * dk) d_model (output_w p) (output_b p)\<rparr>)"

text \<open>
  \<^verbatim>\<open>ChunkedCrossAttention.forward\<close> after the test for no chunks, up to the shift back to
  the right: the input is shifted left by \<open>chunk_len - 1\<close>, normalised, padded with
  zeros to \<open>chunks * chunk_len\<close> positions when it is shorter, split into chunks, and attends
  to the neighbours of its chunk; the result is shifted right again.
\<close>

definition ChunkedCrossAttention_attend ::
  "ChunkedCrossAttention \<Rightarrow> fval tensor \<Rightarrow> fval tensor \<Rightarrow> fval tensor option" where
  "ChunkedCrossAttention_attend self h e =
     (case shape e of
        [batch_size, chunks, neighbors, neighbor_len, d_model] \<Rightarrow>
          do {
            h \<leftarrow> slice_from 1 (py_slice_start (shape h ! 1) (int (cca_chunk_len self) - 1)) h;
            h \<leftarrow> LayerNorm_forward (cca_norm self) h;
            h \<leftarrow> (if shape h ! 1 < chunks * cca_chunk_len self
                  then do {
                    z \<leftarrow> new_zeros [int batch_size,
                           int (chunks * cca_chunk_len self) - int (shape h ! 1), int d_model];
                    cat 1 h z
                  }
                  else Some h);
            h \<leftarrow> reshape h [batch_size, chunks, cca_chunk_len self, d_model];
            q \<leftarrow> Linear_forward (cca_query self) h
                  \<bind> (\<lambda>t. reshape t (butlast (shape h) @ [cca_n_heads self, cca_d_k self]));
            k \<leftarrow> Linear_forward (cca_key self) e
                  \<bind> (\<lambda>t. reshape t (butlast (shape e) @ [cca_n_heads self, cca_d_k self]));
            v \<leftarrow> Linear_forward (cca_val self) e
                  \<bind> (\<lambda>t. reshape t (butlast (shape e) @ [cca_n_heads self, cca_d_k self]));
            attn \<leftarrow> einsum_bcihd_bcnjhd q k;
            let attn = tmap (\<lambda>a. a * Fin (cca_scale self)) attn;
            attn \<leftarrow> reshape_infer_last attn (take (length (shape attn) - 2) (shape attn))
                     \<bind> softmax \<bind> (\<lambda>t. reshape t (shape attn));
            h \<leftarrow> einsum_bchinj_bcnjhd attn v;
            h \<leftarrow> reshape_infer_last h [batch_size, chunks * cca_chunk_len self];
            h \<leftarrow> Linear_forward (cca_output self) h;
            z \<leftarrow> new_zeros [int batch_size, int (cca_chunk_len self) - 1, int d_model];
            cat 1 z h
          }
      | _ \<Rightarrow> None)"

text \<open>\<^verbatim>\<open>ChunkedCrossAttention.forward\<close>.\<close>

definition ChunkedCrossAttention_forward ::
  "ChunkedCrossAttention \<Rightarrow> fval tensor \<Rightarrow> fval tensor \<Rightarrow> fval tensor option" where
  "ChunkedCrossAttention_forward self h e =
     (case shape e of
        [batch_size, chunks, neighbors, neighbor_len, d_model] \<Rightarrow>
          if chunks = 0 then Some h
          else do {
            let h_res = h;
            h \<leftarrow> ChunkedCrossAttention_attend self h e;
            h \<leftarrow> slice_to 1 (shape h_res ! 1) h;
            bop (+) h h_res
          }
      | _ \<Rightarrow> None)"


subsection \<open>Shapes through the chunked cross-attention\<close>

lemma reshape_infer_last_shape:
  assumes "0 < prod_list pre" and "numel t = prod_list pre * m"
  shows "\<exists>r. reshape_infer_last t pre = Some r \<and> shape r = pre @ [m]"
  using assms by (simp add: reshape_infer_last_def reshape_def)

lemma project_shape:
  assumes "shape x = s @ [i]"
  shows "\<exists>r t. Linear_forward (Linear_init i (nh * dk) w b) x = Some r \<and>
             reshape r (butlast (shape x) @ [nh, dk]) = Some t \<and> shape t = s @ [nh, dk]"
proof -
  from Linear_forward_shape [OF assms] obtain r
    where r: "Linear_forward (Linear_init i (nh * dk) w b) x = Some r"
      and sr: "shape r = s @ [nh * dk]"
    by blast
  have "prod_list (butlast (shape x) @ [nh, dk]) = numel r"
    using assms sr by (simp add: numel_def)
  from reshape_shape [OF this] show ?thesis
    using r assms by simp
qed

lemma softmax_shape: "\<exists>w. softmax t = Some w \<and> shape w = shape t"
  by (simp add: softmax_def tmap_def)

lemma pad_shape:
  assumes "shape h = [B, n, D]" and "n < m"
  shows "\<exists>h3. do { z \<leftarrow> new_zeros [int B, int m - int n, int D]; cat 1 h z } = Some h3
            \<and> shape h3 = [B, m, D]"
  using assms by (simp add: new_zeros_def cat_def)

lemma shifted_input_shape:
  assumes "shape h = [B, S, D]" and "0 < cl" and "S + 1 \<le> (C + 1) * cl"
  shows "\<exists>h1 h2 h3. slice_from 1 (py_slice_start (shape h ! 1) (int cl - 1)) h = Some h1 \<and>
          LayerNorm_forward (LayerNorm_init D w b) h1 = Some h2 \<and>
          (if shape h2 ! 1 < C * cl
           then do { z \<leftarrow> new_zeros [int B, int (C * cl) - int (shape h2 ! 1), int D]; cat 1 h2 z }
           else Some h2) = Some h3 \<and> shape h3 = [B, C * cl, D]"
proof -
  let ?S1 = "S - (cl - 1)"
  have st: "py_slice_start (shape h ! 1) (int cl - 1) = min (cl - 1) S"
    using assms(1,2) by (simp add: py_slice_start_def)
  obtain h1 where h1: "slice_from 1 (py_slice_start (shape h ! 1) (int cl - 1)) h = Some h1"
      "shape h1 = [B, ?S1, D]"
    using assms(1) st by (auto simp: slice_from_def)
  have "shape h1 = [B, ?S1] @ [D]" using h1(2) by simp
  from LayerNorm_forward_shape [OF this] obtain h2
    where h2: "LayerNorm_forward (LayerNorm_init D w b) h1 = Some h2" "shape h2 = [B, ?S1, D]"
    using h1(2) by metis
  have le: "?S1 \<le> C * cl" using assms(2,3) by simp
  have "\<exists>h3. (if shape h2 ! 1 < C * cl
                then do { z \<leftarrow> new_zeros [int B, int (C * cl) - int (shape h2 ! 1), int D]; cat 1 h2 z }
                else Some h2) = Some h3 \<and> shape h3 = [B, C * cl, D]"
  proof (cases "?S1 < C * cl")
    case True
    then show ?thesis
      using pad_shape [OF h2(2) True] h2(2) by simp
  next
    case False
    with le have "?S1 = C * cl" by simp
    then show ?thesis using h2(2) by simp
  qed
  then show ?thesis
    using h1(1) h2(1) by simp
qed


lemma ChunkedCrossAttention_attend_shape:
  assumes init: "ChunkedCrossAttention_init D nh dk cl p = Some self"
    and h: "shape h = [B, S, D]" and e: "shape e = [B, C, N, L, D]"
    and pos: "0 < C" "0 < B" "0 < nh" "0 < cl" and fits: "S + 1 \<le> (C + 1) * cl"
  shows "\<exists>a. ChunkedCrossAttention_attend self h e = Some a \<and> shape a = [B, cl - 1 + C * cl, D]"
proof -
  from init have dk: "0 < dk" and self:
    "cca_norm self = LayerNorm_init D (norm_w p) (norm_b p)"
    "cca_query self = Linear_init D (nh * dk) (query_w p) (query_b p)"
    "cca_key self = Linear_init D (nh * dk) (key_w p) (key_b p)"
    "cca_val self = Linear_init D (nh * dk) (value_w p) (value_b p)"
    "cca_output self = Linear_init (nh * dk) D (output_w p) (output_b p)"
    "cca_n_heads self = nh" "cca_d_k self = dk" "cca_chunk_len self = cl"
    by (auto simp: ChunkedCrossAttention_init_def split: if_splits)
  from shifted_input_shape [OF h pos(4) fits] obtain h1 h2 h3 where
    h1: "slice_from 1 (py_slice_start (shape h ! 1) (int cl - 1)) h = Some h1"
    and h2: "LayerNorm_forward (cca_norm self) h1 = Some h2"
    and h3: "(if shape h2 ! 1 < C * cl
           then do { z \<leftarrow> new_zeros [int B, int (C * cl) - int (shape h2 ! 1), int D]; cat 1 h2 z }
           else Some h2) = Some h3" "shape h3 = [B, C * cl, D]"
    unfolding self by blast
  have "prod_list [B, C, cl, D] = numel h3"
    using h3(2) by (simp add: numel_def)
  from reshape_shape [OF this] obtain h4 where
    h4: "reshape h3 [B, C, cl, D] = Some h4" "shape h4 = [B, C, cl, D]"
    by blast
  have "shape h4 = [B, C, cl] @ [D]" using h4(2) by simp
  from project_shape [OF this, of nh dk "query_w p" "query_b p"] obtain q0 q where
    q: "Linear_forward (cca_query self) h4 = Some q0"
       "reshape q0 (butlast (shape h4) @ [nh, dk]) = Some q"
       "shape q = [B, C, cl, nh, dk]"
    unfolding self by fastforce
  have e': "shape e = [B, C, N, L] @ [D]" using e by simp
  from project_shape [OF e', of nh dk "key_w p" "key_b p"] obtain k0 k where
    k: "Linear_forward (cca_key self) e = Some k0"
       "reshape k0 (butlast (shape e) @ [nh, dk]) = Some k"
       "shape k = [B, C, N, L, nh, dk]"
    unfolding self by fastforce
  from project_shape [OF e', of nh dk "value_w p" "value_b p"] obtain v0 v where
    v: "Linear_forward (cca_val self) e = Some v0"
       "reshape v0 (butlast (shape e) @ [nh, dk]) = Some v"
       "shape v = [B, C, N, L, nh, dk]"
    unfolding self by fastforce
  obtain attn where at: "einsum_bcihd_bcnjhd q k = Some attn" "shape attn = [B, C, nh, cl, N, L]"
    using q(3) k(3) by (simp add: einsum_bcihd_bcnjhd_def Let_def)
  let ?sc = "tmap (\<lambda>a. a * Fin (cca_scale self)) attn"
  have ssc: "shape ?sc = [B, C, nh, cl, N, L]"
    using at(2) by (simp add: tmap_def)
  have "0 < prod_list [B, C, nh, cl]" using pos by simp
  moreover have "numel ?sc = prod_list [B, C, nh, cl] * (N * L)"
    using ssc by (simp add: numel_def)
  ultimately obtain fl where fl: "reshape_infer_last ?sc [B, C, nh, cl] = Some fl"
      "shape fl = [B, C, nh, cl] @ [N * L]"
    using reshape_infer_last_shape by blast
  from softmax_shape [of fl] obtain sm where sm: "softmax fl = Some sm" "shape sm = shape fl"
    by blast
  have "prod_list (shape ?sc) = numel sm"
    using ssc sm(2) fl(2) by (simp add: numel_def)
  from reshape_shape [OF this] obtain w where
    w: "reshape sm (shape ?sc) = Some w" "shape w = [B, C, nh, cl, N, L]"
    using ssc by auto
  obtain g where g: "einsum_bchinj_bcnjhd w v = Some g" "shape g = [B, C, cl, nh, dk]"
    using w(2) v(3) by (simp add: einsum_bchinj_bcnjhd_def Let_def)
  have "0 < prod_list [B, C * cl]" using pos by simp
  moreover have "numel g = prod_list [B, C * cl] * (nh * dk)"
    using g(2) by (simp add: numel_def)
  ultimately obtain r where r: "reshape_infer_last g [B, C * cl] = Some r"
      "shape r = [B, C * cl] @ [nh * dk]"
    using reshape_infer_last_shape by blast
  from Linear_forward_shape [OF r(2)] obtain l where
    l: "Linear_forward (cca_output self) r = Some l" "shape l = [B, C * cl, D]"
    unfolding self by fastforce
  have "\<exists>z a. new_zeros [int B, int cl - 1, int D] = Some z \<and> cat 1 z l = Some a
          \<and> shape a = [B, cl - 1 + C * cl, D]"
    using l(2) pos(4) by (simp add: new_zeros_def cat_def nat_diff_distrib')
  then obtain z a where a: "new_zeros [int B, int cl - 1, int D] = Some z" "cat 1 z l = Some a"
      "shape a = [B, cl - 1 + C * cl, D]"
    by blast
  have tk: "take (length (shape ?sc) - 2) (shape ?sc) = [B, C, nh, cl]"
    using ssc by simp
  have "ChunkedCrossAttention_attend self h e = Some a"
    by (simp only: ChunkedCrossAttention_attend_def e list.case self(6,7,8) Let_def
        h1 h2 h3(1) h4(1) q(1,2) k(1) v(1) k(2) [unfolded e] v(2) [unfolded e] at(1) tk fl(1) sm(1) w(1) g(1) r(1) l(1) a(1,2)
        bind.simps bind_assoc)
  with a(3) show ?thesis by blast
qed


lemma ChunkedCrossAttention_forward_fits:
  assumes init: "ChunkedCrossAttention_init D nh dk cl p = Some self"
    and h: "shape h = [B, S, D]" and e: "shape e = [B, C, N, L, D]"
    and pos: "0 < C" "0 < B" "0 < nh" "0 < cl" and fits: "S + 1 \<le> (C + 1) * cl"
  shows "\<exists>a r. ChunkedCrossAttention_attend self h e = Some a \<and>
      shape a = [B, cl - 1 + C * cl, D] \<and>
      ChunkedCrossAttention_forward self h e = Some r \<and> shape r = shape h \<and>
      (\<forall>b<B. \<forall>i<S. \<forall>j<D. elem r [b, i, j] = elem a [b, i, j] + elem h [b, i, j])"
proof -
  from ChunkedCrossAttention_attend_shape [OF init h e pos fits] obtain a where
    a: "ChunkedCrossAttention_attend self h e = Some a" "shape a = [B, cl - 1 + C * cl, D]"
    by blast
  have le: "S \<le> cl - 1 + C * cl" using fits pos(4) by simp
  have "\<exists>t. slice_to 1 (shape h ! 1) a = Some t \<and> shape t = [B, S, D] \<and> elem t = elem a"
    using a(2) h le by (simp add: slice_to_def min_def)
  then obtain t where t: "slice_to 1 (shape h ! 1) a = Some t" "shape t = [B, S, D]"
      "elem t = elem a"
    by blast
  have "\<exists>r. bop (+) t h = Some r \<and> shape r = [B, S, D] \<and>
      (\<forall>b<B. \<forall>i<S. \<forall>j<D. elem r [b, i, j] = elem a [b, i, j] + elem h [b, i, j])"
    using t(2,3) h by (simp add: bop_def broadcast_shapes_def bindex_def)
  then obtain r where r: "bop (+) t h = Some r" "shape r = [B, S, D]"
      "\<forall>b<B. \<forall>i<S. \<forall>j<D. elem r [b, i, j] = elem a [b, i, j] + elem h [b, i, j]"
    by blast
  have "ChunkedCrossAttention_forward self h e = Some r"
    using e pos(1) a(1) t(1) r(1) by (simp add: ChunkedCrossAttention_forward_def)
  then show ?thesis
    using a r(2,3) h by auto
qed

lemma ChunkedCrossAttention_forward_too_long:
  assumes init: "ChunkedCrossAttention_init D nh dk cl p = Some self"
    and h: "shape h = [B, S, D]" and e: "shape e = [B, C, N, L, D]"
    and pos: "0 < C" "0 < B" "0 < D" "0 < cl" and long: "(C + 1) * cl \<le> S"
  shows "ChunkedCrossAttention_forward self h e = None"
proof -
  from init have self: "cca_norm self = LayerNorm_init D (norm_w p) (norm_b p)"
      "cca_chunk_len self = cl"
    by (auto simp: ChunkedCrossAttention_init_def split: if_splits)
  let ?S1 = "S - (cl - 1)"
  have st: "py_slice_start (shape h ! 1) (int cl - 1) = min (cl - 1) S"
    using h pos(4) by (simp add: py_slice_start_def)
  obtain h1 where h1: "slice_from 1 (py_slice_start (shape h ! 1) (int cl - 1)) h = Some h1"
      "shape h1 = [B, ?S1, D]"
    using h st by (auto simp: slice_from_def)
  have "shape h1 = [B, ?S1] @ [D]" using h1(2) by simp
  from LayerNorm_forward_shape [OF this] obtain h2
    where h2: "LayerNorm_forward (cca_norm self) h1 = Some h2" "shape h2 = [B, ?S1, D]"
    using h1(2) self(1) by metis
  have gt: "C * cl < ?S1" using long pos(4) by simp
  then have nopad: "\<not> shape h2 ! 1 < C * cl" using h2(2) by simp
  have "B * (?S1 * D) \<noteq> B * (C * cl * D)"
    using gt pos(2,3) by simp
  then have "prod_list [B, C, cl, D] \<noteq> numel h2"
    using h2(2) by (simp add: numel_def mult.assoc)
  then have rs: "reshape h2 [B, C, cl, D] = None"
    by (simp add: reshape_def)
  have "ChunkedCrossAttention_attend self h e = None"
    by (simp only: ChunkedCrossAttention_attend_def e list.case self(2) h1(1) h2(1) nopad
        if_False rs bind.simps)
  then show ?thesis
    using e pos(1) by (simp add: ChunkedCrossAttention_forward_def)
qed

text \<open>
  Claim C7, as amended. For a layer built by \<^verbatim>\<open>__init__\<close>, \<open>h\<close> of shape
  \<open>[batch_size, seq_len, d_model]\<close> and \<open>e\<close> of shape
  \<open>[batch_size, chunks, neighbors, neighbor_len, d_model]\<close>: with no chunks the call returns
  \<open>h\<close> itself. With chunks, a batch that is not empty, at least one head, a positive
  chunk length and \<open>seq_len - (chunk_len - 1) \<le> chunks * chunk_len\<close>, the attention
  output has \<open>chunk_len - 1 + chunks * chunk_len\<close> positions and the call returns a tensor
  of the shape of \<open>h\<close>: that output truncated to \<open>seq_len\<close> plus \<open>h\<close>. When the shifted
  input is longer than \<open>chunks * chunk_len\<close> (and no size is 0) the reshape into chunks
  fails and the call raises.
\<close>

theorem ChunkedCrossAttention_forward_shape:
  assumes init: "ChunkedCrossAttention_init D nh dk cl p = Some self"
    and h: "shape h = [B, S, D]" and e: "shape e = [B, C, N, L, D]"
  shows "(C = 0 \<longrightarrow> ChunkedCrossAttention_forward self h e = Some h) \<and>
    (0 < C \<and> 0 < B \<and> 0 < nh \<and> 0 < cl \<and> S + 1 \<le> (C + 1) * cl \<longrightarrow>
       (\<exists>a r. ChunkedCrossAttention_attend self h e = Some a \<and>
          shape a = [B, cl - 1 + C * cl, D] \<and>
          ChunkedCrossAttention_forward self h e = Some r \<and> shape r = shape h \<and>
          (\<forall>b<B. \<forall>i<S. \<forall>j<D. elem r [b, i, j] = elem a [b, i, j] + elem h [b, i, j]))) \<and>
    (0 < C \<and> 0 < B \<and> 0 < D \<and> 0 < cl \<and> (C + 1) * cl \<le> S \<longrightarrow>
       ChunkedCrossAttention_forward self h e = None)"
proof (intro conjI impI)
  assume "C = 0"
  then show "ChunkedCrossAttention_forward self h e = Some h"
    using e by (simp add: ChunkedCrossAttention_forward_def)
next
  assume "0 < C \<and> 0 < B \<and> 0 < nh \<and> 0 < cl \<and> S + 1 \<le> (C + 1) * cl"
  then show "\<exists>a r. ChunkedCrossAttention_attend self h e = Some a \<and>
          shape a = [B, cl - 1 + C * cl, D] \<and>
          ChunkedCrossAttention_forward self h e = Some r \<and> shape r = shape h \<and>
          (\<forall>b<B. \<forall>i<S. \<forall>j<D. elem r [b, i, j] = elem a [b, i, j] + elem h [b, i, j])"
    using ChunkedCrossAttention_forward_fits [OF init h e] by blast
next
  assume "0 < C \<and> 0 < B \<and> 0 < D \<and> 0 < cl \<and> (C + 1) * cl \<le> S"
  then show "ChunkedCrossAttention_forward self h e = None"
    using ChunkedCrossAttention_forward_too_long [OF init h e] by blast
qed


text \<open>
  The layer of the repository's own test (\<open>d_model = 8\<close>, two heads of 4 features, chunks
  of length 4) on a sequence of 10 positions.
\<close>

definition cca0 :: ChunkedCrossAttention where
  "cca0 = the (ChunkedCrossAttention_init 8 2 4 4 p0)"

text \<open>The theorem with two retrieved chunks, as in that test, and with none.\<close>

theorem ChunkedCrossAttention_forward_shape_witness:
  "ChunkedCrossAttention_init 8 2 4 4 p0 = Some cca0 \<and>
   shape (ones [1, 10, 8]) = [1, 10, 8] \<and> shape (ones [1, 2, 2, 6, 8]) = [1, 2, 2, 6, 8] \<and>
   shape (ones [1, 0, 2, 6, 8]) = [1, 0, 2, 6, 8] \<and>
   (\<exists>r. ChunkedCrossAttention_forward cca0 (ones [1, 10, 8]) (ones [1, 2, 2, 6, 8]) = Some r \<and>
        shape r = [1, 10, 8]) \<and>
   ChunkedCrossAttention_forward cca0 (ones [1, 10, 8]) (ones [1, 0, 2, 6, 8])
     = Some (ones [1, 10, 8])"
proof -
  have init: "ChunkedCrossAttention_init 8 2 4 4 p0 = Some cca0"
    by (simp add: cca0_def ChunkedCrossAttention_init_def)
  have h: "shape (ones [1, 10, 8]) = [1, 10, 8]"
    and e2: "shape (ones [1, 2, 2, 6, 8]) = [1, 2, 2, 6, 8]"
    and e0: "shape (ones [1, 0, 2, 6, 8]) = [1, 0, 2, 6, 8]"
    by (simp_all add: ones_def)
  show ?thesis
    using ChunkedCrossAttention_forward_shape [OF init h e2]
      ChunkedCrossAttention_forward_shape [OF init h e0] init h e2 e0
    by auto
qed

text \<open>
  Claim C7 as stated fails with one retrieved chunk for the same sequence: the shifted
  input has 7 positions, is not padded, and does not reshape into one chunk of 4.
\<close>

theorem ChunkedCrossAttention_forward_counterexample:
  "ChunkedCrossAttention_init 8 2 4 4 p0 = Some cca0 \<and>
   shape (ones [1, 10, 8]) = [1, 10, 8] \<and> shape (ones [1, 1, 2, 6, 8]) = [1, 1, 2, 6, 8] \<and>
   ChunkedCrossAttention_forward cca0 (ones [1, 10, 8]) (ones [1, 1, 2, 6, 8]) = None"
proof -
  have init: "ChunkedCrossAttention_init 8 2 4 4 p0 = Some cca0"
    by (simp add: cca0_def ChunkedCrossAttention_init_def)
  have h: "shape (ones [1, 10, 8]) = [1, 10, 8]"
    and e1: "shape (ones [1, 1, 2, 6, 8]) = [1, 1, 2, 6, 8]"
    by (simp_all add: ones_def)
  show ?thesis
    using ChunkedCrossAttention_forward_too_long [OF init h e1] init h e1
    by simp
qed

section \<open>StyleGAN: convolution with weight modulation\<close>

text \<open>\<^verbatim>\<open>t.reshape(*sizes)\<close> with one size given as \<open>-1\<close>: it is inferred from the others,
  whose product must be nonzero and divide the number of entries.\<close>

definition reshape_infer :: "'a tensor \<Rightarrow> int list \<Rightarrow> 'a tensor option" where
  "reshape_infer t sizes =
     (let known = prod_list (map nat (filter (\<lambda>n. n \<noteq> - 1) sizes))
      in if list_all (\<lambda>n. - 1 \<le> n) sizes \<and> length (filter (\<lambda>n. n = - 1) sizes) = 1 \<and>
            0 < known \<and> numel t mod known = 0
         then reshape t (map (\<lambda>n. if n = - 1 then numel t div known else nat n) sizes)
         else None)"

text \<open>The entry of the zero-padded input of \<^verbatim>\<open>F.conv2d\<close> at a position of the padded
  image.\<close>

definition padded :: "fval tensor \<Rightarrow> nat \<Rightarrow> nat \<Rightarrow> nat \<Rightarrow> nat \<Rightarrow> nat \<Rightarrow> fval" where
  "padded inp p n c y x =
     (if p \<le> y \<and> y < shape inp ! 2 + p \<and> p \<le> x \<and> x < shape inp ! 3 + p
      then elem inp [n, c, y - p, x - p] else Fin 0)"

text \<open>\<^verbatim>\<open>F.conv2d(inp, wt, padding=p, groups=g)\<close> with stride 1 and no bias: output channel
  \<open>o\<close> reads the input channels of its group.\<close>

definition conv2d :: "fval tensor \<Rightarrow> fval tensor \<Rightarrow> nat \<Rightarrow> nat \<Rightarrow> fval tensor option" where
  "conv2d inp wt p g =
     (case (shape inp, shape wt) of
        ([N, Cin, H, W], [Cout, Cg, kH, kW]) \<Rightarrow>
          if 0 < g \<and> Cin mod g = 0 \<and> Cout mod g = 0 \<and> Cg = Cin div g \<and>
             kH \<le> H + 2 * p \<and> kW \<le> W + 2 * p
          then Some \<lparr>shape = [N, Cout, H + 2 * p - kH + 1, W + 2 * p - kW + 1],
                     elem = (\<lambda>idx. \<Sum>c<Cg. \<Sum>i<kH. \<Sum>j<kW.
                               padded inp p (idx ! 0) (idx ! 1 div (Cout div g) * Cg + c)
                                 (idx ! 2 + i) (idx ! 3 + j) *
                               elem wt [idx ! 1, c, i, j])\<rparr>
          else None
      | _ \<Rightarrow> None)"

text \<open>\<^verbatim>\<open>t.sum(dim=(2, 3, 4), keepdim=True)\<close>.\<close>

definition sum_dims_234_keepdim :: "fval tensor \<Rightarrow> fval tensor option" where
  "sum_dims_234_keepdim t =
     (if 5 \<le> length (shape t)
      then Some \<lparr>shape = (shape t)[2 := 1, 3 := 1, 4 := 1],
                 elem = (\<lambda>idx. \<Sum>c<shape t ! 2. \<Sum>i<shape t ! 3. \<Sum>j<shape t ! 4.
                           elem t (idx[2 := c, 3 := i, 4 := j]))\<rparr>
      else None)"

record Conv2dWeightModulate =
  filters :: nat
  demodulate :: bool
  kernel :: nat
  padding :: nat
  conv_weight :: "fval tensor"
  conv_eps :: real
  runtime_coef :: real

text \<open>\<^verbatim>\<open>Conv2dWeightModulate.__init__\<close>; \<open>rnd\<close> are the entries \<^verbatim>\<open>torch.randn\<close> draws.
  \<^verbatim>\<open>1 / math.sqrt(0)\<close> raises ZeroDivisionError.\<close>

definition Conv2dWeightModulate_init ::
  "nat \<Rightarrow> nat \<Rightarrow> nat \<Rightarrow> bool \<Rightarrow> real \<Rightarrow> real \<Rightarrow> entries \<Rightarrow> Conv2dWeightModulate option" where
  "Conv2dWeightModulate_init in_features out_features kernel_size demod lr_mul eps rnd =
     (if in_features * kernel_size * kernel_size = 0 then None
      else
        let he_std = 1 / sqrt (real (in_features * kernel_size * kernel_size))
        in Some \<lparr>filters = out_features, demodulate = demod, kernel = kernel_size,
                  padding = (kernel_size - 1) div 2,
                  conv_weight = tmap (\<lambda>v. v / Fin lr_mul)
                    \<lparr>shape = [out_features, in_features, kernel_size, kernel_size], elem = rnd\<rparr>,
                  conv_eps = eps, runtime_coef = lr_mul * he_std\<rparr>)"

text \<open>\<^verbatim>\<open>Conv2dWeightModulate.forward\<close> up to the demodulation: the weights of every sample.\<close>

definition Conv2dWeightModulate_weights ::
  "Conv2dWeightModulate \<Rightarrow> fval tensor \<Rightarrow> fval tensor option" where
  "Conv2dWeightModulate_weights self style =
     do {
       w1 \<leftarrow> unsqueeze 1 style \<bind> unsqueeze 3 \<bind> unsqueeze 4;
       w2 \<leftarrow> unsqueeze 0 (conv_weight self);
       let w2 = tmap (\<lambda>v. v * Fin (runtime_coef self)) w2;
       weights \<leftarrow> bop (*) w2 (tmap (\<lambda>v. v + Fin 1) w1);
       if demodulate self
       then do {
         s \<leftarrow> sum_dims_234_keepdim (tmap (\<lambda>v. v * v) weights);
         let d = tmap (\<lambda>v. Fin 1 / fsqrt (v + Fin (conv_eps self))) s;
         bop (*) weights d
       }
       else Some weights
     }"

text \<open>\<^verbatim>\<open>Conv2dWeightModulate.forward\<close>.\<close>

definition Conv2dWeightModulate_forward ::
  "Conv2dWeightModulate \<Rightarrow> fval tensor \<Rightarrow> fval tensor \<Rightarrow> fval tensor option" where
  "Conv2dWeightModulate_forward self x style =
     (case shape x of
        [b, c, h, w] \<Rightarrow>
          do {
            weights \<leftarrow> Conv2dWeightModulate_weights self style;
            x \<leftarrow> reshape_infer x [1, - 1, int h, int w];
            weights \<leftarrow> (if 2 \<le> length (shape weights)
                        then reshape weights ((b * filters self) # drop 2 (shape weights))
                        else None);
            x \<leftarrow> conv2d x weights (padding self) b;
            reshape_infer x [- 1, int (filters self), int h, int w]
          }
      | _ \<Rightarrow> None)"


subsection \<open>Reshaping with an inferred size\<close>

lemma reshape_infer_second:
  "reshape_infer t [1, - 1, int h, int w] =
     (if 0 < h * w \<and> numel t mod (h * w) = 0 then reshape t [1, numel t div (h * w), h, w] else None)"
  by (simp add: reshape_infer_def)

lemma reshape_infer_first:
  "reshape_infer t [- 1, int f, int h, int w] =
     (if 0 < f * h * w \<and> numel t mod (f * h * w) = 0
      then reshape t [numel t div (f * h * w), f, h, w] else None)"
  by (simp add: reshape_infer_def mult.assoc)


subsection \<open>The modulated weights\<close>

lemma modulate_elem:
  assumes style: "shape style = [b, cin]" and w: "shape w = [cout, cin, k, k]"
  shows "\<exists>w1 w2 ws. (unsqueeze 1 style \<bind> unsqueeze 3 \<bind> unsqueeze 4) = Some w1 \<and>
     unsqueeze 0 w = Some w2 \<and>
     bop (*) (tmap (\<lambda>v. v * Fin coef) w2) (tmap (\<lambda>v. v + Fin 1) w1) = Some ws \<and>
     shape ws = [b, cout, cin, k, k] \<and>
     (\<forall>n<b. \<forall>oc<cout. \<forall>c<cin. \<forall>i<k. \<forall>j<k.
        elem ws [n, oc, c, i, j] = elem w [oc, c, i, j] * Fin coef * (elem style [n, c] + Fin 1))"
  using assms
  by (simp add: unsqueeze_def tmap_def bop_def broadcast_shapes_def bindex_def)

lemma demodulate_elem:
  assumes "shape ws = [b, cout, cin, k, k]"
  shows "\<exists>s r. sum_dims_234_keepdim (tmap (\<lambda>v. v * v) ws) = Some s \<and>
     bop (*) ws (tmap (\<lambda>v. Fin 1 / fsqrt (v + Fin eps)) s) = Some r \<and>
     shape r = [b, cout, cin, k, k] \<and>
     (\<forall>n<b. \<forall>oc<cout. \<forall>c<cin. \<forall>i<k. \<forall>j<k.
        elem r [n, oc, c, i, j] =
          elem ws [n, oc, c, i, j] *
          (Fin 1 / fsqrt ((\<Sum>c'<cin. \<Sum>i'<k. \<Sum>j'<k.
                             elem ws [n, oc, c', i', j'] * elem ws [n, oc, c', i', j']) + Fin eps)))"
  using assms
  by (simp add: sum_dims_234_keepdim_def tmap_def bop_def broadcast_shapes_def bindex_def)

lemma Conv2dWeightModulate_weights_elem:
  assumes init: "Conv2dWeightModulate_init cin cout k demod lr_mul eps rnd = Some self"
    and style: "shape style = [b, cin]"
  shows "\<exists>ws. Conv2dWeightModulate_weights self style = Some ws \<and>
     shape ws = [b, cout, cin, k, k] \<and>
     (\<forall>n<b. \<forall>oc<cout. \<forall>c<cin. \<forall>i<k. \<forall>j<k.
        (let m = (\<lambda>c i j. elem (conv_weight self) [oc, c, i, j] * Fin (runtime_coef self)
                          * (elem style [n, c] + Fin 1))
         in elem ws [n, oc, c, i, j] =
            (if demod
             then m c i j * (Fin 1 / fsqrt ((\<Sum>c'<cin. \<Sum>i'<k. \<Sum>j'<k. m c' i' j' * m c' i' j')
                                            + Fin eps))
             else m c i j)))"
proof -
  from init have self: "demodulate self = demod" "conv_eps self = eps"
      "shape (conv_weight self) = [cout, cin, k, k]"
    by (auto simp: Conv2dWeightModulate_init_def Let_def tmap_def split: if_splits)
  let ?m = "\<lambda>n oc c i j. elem (conv_weight self) [oc, c, i, j] * Fin (runtime_coef self)
                          * (elem style [n, c] + Fin 1)"
  from modulate_elem [OF style self(3), of "runtime_coef self"] obtain w1 w2 ws where
    w1: "(unsqueeze 1 style \<bind> unsqueeze 3 \<bind> unsqueeze 4) = Some w1"
    and w2: "unsqueeze 0 (conv_weight self) = Some w2"
    and ws: "bop (*) (tmap (\<lambda>v. v * Fin (runtime_coef self)) w2) (tmap (\<lambda>v. v + Fin 1) w1) = Some ws"
      "shape ws = [b, cout, cin, k, k]"
      "\<forall>n<b. \<forall>oc<cout. \<forall>c<cin. \<forall>i<k. \<forall>j<k. elem ws [n, oc, c, i, j] = ?m n oc c i j"
    by blast
  show ?thesis
  proof (cases demod)
    case False
    have "Conv2dWeightModulate_weights self style = Some ws"
      by (simp only: Conv2dWeightModulate_weights_def w1 w2 ws(1) Let_def self(1) False if_False
          bind.simps)
    then show ?thesis
      using ws(2,3) False by (simp add: Let_def)
  next
    case True
    from demodulate_elem [OF ws(2), of eps] obtain s r where
      s: "sum_dims_234_keepdim (tmap (\<lambda>v. v * v) ws) = Some s"
      and r: "bop (*) ws (tmap (\<lambda>v. Fin 1 / fsqrt (v + Fin eps)) s) = Some r"
        "shape r = [b, cout, cin, k, k]"
        "\<forall>n<b. \<forall>oc<cout. \<forall>c<cin. \<forall>i<k. \<forall>j<k.
          elem r [n, oc, c, i, j] =
            elem ws [n, oc, c, i, j] *
            (Fin 1 / fsqrt ((\<Sum>c'<cin. \<Sum>i'<k. \<Sum>j'<k.
                             elem ws [n, oc, c', i', j'] * elem ws [n, oc, c', i', j']) + Fin eps))"
      by blast
    have "Conv2dWeightModulate_weights self style = Some r"
      by (simp only: Conv2dWeightModulate_weights_def w1 w2 ws(1) Let_def self(1,2) True if_True
          s r(1) bind.simps)
    moreover have "\<forall>n<b. \<forall>oc<cout. \<forall>c<cin. \<forall>i<k. \<forall>j<k.
        elem r [n, oc, c, i, j] =
          ?m n oc c i j * (Fin 1 / fsqrt ((\<Sum>c'<cin. \<Sum>i'<k. \<Sum>j'<k.
                             ?m n oc c' i' j' * ?m n oc c' i' j') + Fin eps))"
    proof (intro allI impI)
      fix n oc c i j
      assume b: "n < b" "oc < cout" "c < cin" "i < k" "j < k"
      have "(\<Sum>c'<cin. \<Sum>i'<k. \<Sum>j'<k.
                elem ws [n, oc, c', i', j'] * elem ws [n, oc, c', i', j'])
          = (\<Sum>c'<cin. \<Sum>i'<k. \<Sum>j'<k. ?m n oc c' i' j' * ?m n oc c' i' j')"
        using ws(3) b(1,2) by (intro sum.cong refl) simp
      then show "elem r [n, oc, c, i, j] =
          ?m n oc c i j * (Fin 1 / fsqrt ((\<Sum>c'<cin. \<Sum>i'<k. \<Sum>j'<k.
                             ?m n oc c' i' j' * ?m n oc c' i' j') + Fin eps))"
        using r(3) ws(3) b by simp
    qed
    ultimately show ?thesis
      using r(2) True by (simp add: Let_def)
  qed
qed


subsection \<open>The grouped convolution is the convolution of every sample\<close>

text \<open>Sample \<open>n\<close> of a batch, \<^verbatim>\<open>x[n:n+1]\<close>, and its weights, \<^verbatim>\<open>weights[n]\<close>: the operands of
  the convolution of one sample, which the claim compares the grouped convolution with.\<close>

definition sample_input :: "nat \<Rightarrow> 'a tensor \<Rightarrow> 'a tensor" where
  "sample_input n x = \<lparr>shape = (shape x)[0 := 1], elem = (\<lambda>idx. elem x (idx[0 := idx ! 0 + n]))\<rparr>"

definition sample_weights :: "nat \<Rightarrow> 'a tensor \<Rightarrow> 'a tensor" where
  "sample_weights n ws = \<lparr>shape = tl (shape ws), elem = (\<lambda>idx. elem ws (n # idx))\<rparr>"

lemma input_reshape_elem:
  assumes "shape x = [b, cin, h, w]" and "0 < h" and "0 < w"
  shows "\<exists>xr. reshape_infer x [1, - 1, int h, int w] = Some xr \<and> shape xr = [1, b * cin, h, w] \<and>
     (\<forall>n<b. \<forall>c<cin. \<forall>y<h. \<forall>xx<w. elem xr [0, n * cin + c, y, xx] = elem x [n, c, y, xx])"
proof -
  have n: "numel x = b * cin * (h * w)"
    using assms(1) by (simp add: numel_def)
  then have "prod_list [1, b * cin, h, w] = numel x" by simp
  from reshape_shape [OF this] obtain xr where
    xr: "reshape x [1, b * cin, h, w] = Some xr" "shape xr = [1, b * cin, h, w]"
    by blast
  have inf: "reshape_infer x [1, - 1, int h, int w] = Some xr"
    using xr(1) n assms(2,3) by (simp add: reshape_infer_second)
  have "\<forall>n<b. \<forall>c<cin. \<forall>y<h. \<forall>xx<w. elem xr [0, n * cin + c, y, xx] = elem x [n, c, y, xx]"
  proof (intro allI impI)
    fix n c y xx
    assume "n < b" "c < cin" "y < h" "xx < w"
    then have "list_all2 (<) [n, c, y, xx] (shape x)"
      using assms(1) by simp
    moreover have "ravel [1, b * cin, h, w] [0, n * cin + c, y, xx] = ravel (shape x) [n, c, y, xx]"
      using assms(1) by (simp add: algebra_simps)
    ultimately show "elem xr [0, n * cin + c, y, xx] = elem x [n, c, y, xx]"
      using reshape_elem [OF xr(1)] by blast
  qed
  then show ?thesis using inf xr(2) by blast
qed

lemma weights_reshape_elem:
  assumes "shape ws = [b, cout, cin, k, k']"
  shows "\<exists>wr. reshape ws ((b * cout) # drop 2 (shape ws)) = Some wr \<and>
     shape wr = [b * cout, cin, k, k'] \<and>
     (\<forall>n<b. \<forall>oc<cout. \<forall>c<cin. \<forall>i<k. \<forall>j<k'.
        elem wr [n * cout + oc, c, i, j] = elem ws [n, oc, c, i, j])"
proof -
  have "prod_list [b * cout, cin, k, k'] = numel ws"
    using assms by (simp add: numel_def)
  from reshape_shape [OF this] obtain wr where
    wr: "reshape ws [b * cout, cin, k, k'] = Some wr" "shape wr = [b * cout, cin, k, k']"
    by blast
  have "\<forall>n<b. \<forall>oc<cout. \<forall>c<cin. \<forall>i<k. \<forall>j<k'.
        elem wr [n * cout + oc, c, i, j] = elem ws [n, oc, c, i, j]"
  proof (intro allI impI)
    fix n oc c i j
    assume "n < b" "oc < cout" "c < cin" "i < k" "j < k'"
    then have "list_all2 (<) [n, oc, c, i, j] (shape ws)"
      using assms by simp
    moreover have "ravel [b * cout, cin, k, k'] [n * cout + oc, c, i, j]
        = ravel (shape ws) [n, oc, c, i, j]"
      using assms by (simp add: algebra_simps)
    ultimately show "elem wr [n * cout + oc, c, i, j] = elem ws [n, oc, c, i, j]"
      using reshape_elem [OF wr(1)] by blast
  qed
  then show ?thesis using wr assms by simp
qed

lemma output_reshape_elem:
  assumes "shape cv = [1, b * cout, h, w]" and "0 < cout" and "0 < h" and "0 < w"
  shows "\<exists>r. reshape_infer cv [- 1, int cout, int h, int w] = Some r \<and> shape r = [b, cout, h, w] \<and>
     (\<forall>n<b. \<forall>oc<cout. \<forall>y<h. \<forall>xx<w. elem r [n, oc, y, xx] = elem cv [0, n * cout + oc, y, xx])"
proof -
  have n: "numel cv = b * (cout * h * w)"
    using assms(1) by (simp add: numel_def)
  then have "prod_list [b, cout, h, w] = numel cv" by simp
  from reshape_shape [OF this] obtain r where
    r: "reshape cv [b, cout, h, w] = Some r" "shape r = [b, cout, h, w]"
    by blast
  have inf: "reshape_infer cv [- 1, int cout, int h, int w] = Some r"
    using r(1) n assms(2,3,4) by (simp add: reshape_infer_first)
  have "\<forall>n<b. \<forall>oc<cout. \<forall>y<h. \<forall>xx<w. elem r [n, oc, y, xx] = elem cv [0, n * cout + oc, y, xx]"
  proof (intro allI impI)
    fix n oc y xx
    assume "n < b" "oc < cout" "y < h" "xx < w"
    then have "Suc n * cout \<le> b * cout"
      by (intro mult_le_mono1 Suc_leI)
    moreover have "n * cout + oc < Suc n * cout"
      using \<open>oc < cout\<close> by simp
    ultimately have "n * cout + oc < b * cout"
      by (rule less_le_trans [rotated])
    then have "list_all2 (<) [0, n * cout + oc, y, xx] (shape cv)"
      using assms(1) \<open>y < h\<close> \<open>xx < w\<close> by simp
    moreover have "ravel [b, cout, h, w] [n, oc, y, xx] = ravel (shape cv) [0, n * cout + oc, y, xx]"
      using assms(1) by (simp add: algebra_simps)
    ultimately show "elem r [n, oc, y, xx] = elem cv [0, n * cout + oc, y, xx]"
      using reshape_elem [OF r(1)] by blast
  qed
  then show ?thesis using inf r(2) by blast
qed


lemma padded_sample:
  assumes "shape xr = [1, b * cin, h, w]" and "shape x = [b, cin, h, w]"
    and "\<forall>n<b. \<forall>c<cin. \<forall>y<h. \<forall>xx<w. elem xr [0, n * cin + c, y, xx] = elem x [n, c, y, xx]"
    and "n < b" and "c < cin"
  shows "padded xr p 0 (n * cin + c) y xx = padded (sample_input n x) p 0 c y xx"
proof (cases "p \<le> y \<and> y < h + p \<and> p \<le> xx \<and> xx < w + p")
  case True
  then have "y - p < h" and "xx - p < w" by auto
  then have "elem xr [0, n * cin + c, y - p, xx - p] = elem x [n, c, y - p, xx - p]"
    using assms(3-5) by blast
  then show ?thesis
    using True assms(1,2) by (simp add: padded_def sample_input_def)
next
  case False
  then show ?thesis
    using assms(1,2) by (auto simp add: padded_def sample_input_def)
qed

lemma grouped_index:
  assumes "0 < (b::nat)" and "oc < (cout::nat)"
  shows "(n * cout + oc) div (b * cout div b) * cin + c = n * cin + c"
  using assms by simp

lemma grouped_conv_elem:
  assumes xr: "shape xr = [1, b * cin, h, w]" and x: "shape x = [b, cin, h, w]"
    and wr: "shape wr = [b * cout, cin, k, k]" and ws: "shape ws = [b, cout, cin, k, k]"
    and ex: "\<forall>n<b. \<forall>c<cin. \<forall>y<h. \<forall>xx<w. elem xr [0, n * cin + c, y, xx] = elem x [n, c, y, xx]"
    and ew: "\<forall>n<b. \<forall>oc<cout. \<forall>c<cin. \<forall>i<k. \<forall>j<k.
               elem wr [n * cout + oc, c, i, j] = elem ws [n, oc, c, i, j]"
    and b: "0 < b" and kh: "k \<le> h + 2 * p" and kw: "k \<le> w + 2 * p"
  shows "\<exists>cv. conv2d xr wr p b = Some cv \<and>
     shape cv = [1, b * cout, h + 2 * p - k + 1, w + 2 * p - k + 1] \<and>
     (\<forall>n<b. \<forall>oc<cout. \<forall>y xx. elem cv [0, n * cout + oc, y, xx] =
        (\<Sum>c<cin. \<Sum>i<k. \<Sum>j<k. padded (sample_input n x) p 0 c (y + i) (xx + j)
                                    * elem ws [n, oc, c, i, j]))"
proof -
  define cv where "cv = \<lparr>shape = [1, b * cout, h + 2 * p - k + 1, w + 2 * p - k + 1],
     elem = (\<lambda>idx. \<Sum>c<cin. \<Sum>i<k. \<Sum>j<k.
                padded xr p (idx ! 0) (idx ! 1 div (b * cout div b) * cin + c)
                  (idx ! 2 + i) (idx ! 3 + j) * elem wr [idx ! 1, c, i, j])\<rparr>"
  have c: "conv2d xr wr p b = Some cv"
    using xr wr b kh kw by (simp add: conv2d_def cv_def)
  have "\<forall>n<b. \<forall>oc<cout. \<forall>y xx. elem cv [0, n * cout + oc, y, xx] =
        (\<Sum>c<cin. \<Sum>i<k. \<Sum>j<k. padded (sample_input n x) p 0 c (y + i) (xx + j)
                                    * elem ws [n, oc, c, i, j])"
  proof (intro allI impI)
    fix n oc y xx
    assume n: "n < b" and oc: "oc < cout"
    have "elem cv [0, n * cout + oc, y, xx] =
        (\<Sum>c<cin. \<Sum>i<k. \<Sum>j<k. padded xr p 0 ((n * cout + oc) div (b * cout div b) * cin + c)
                  (y + i) (xx + j) * elem wr [n * cout + oc, c, i, j])"
      by (simp add: cv_def)
    also have "\<dots> = (\<Sum>c<cin. \<Sum>i<k. \<Sum>j<k. padded (sample_input n x) p 0 c (y + i) (xx + j)
                                    * elem ws [n, oc, c, i, j])"
    proof (intro sum.cong refl)
      fix c i j
      assume "c \<in> {..<cin}" "i \<in> {..<k}" "j \<in> {..<k}"
      then have r: "c < cin" "i < k" "j < k" by simp_all
      have "elem wr [n * cout + oc, c, i, j] = elem ws [n, oc, c, i, j]"
        using ew n oc r by blast
      moreover have "padded xr p 0 ((n * cout + oc) div (b * cout div b) * cin + c) (y + i) (xx + j)
          = padded (sample_input n x) p 0 c (y + i) (xx + j)"
        unfolding grouped_index [OF b oc]
        by (rule padded_sample [OF xr x ex n r(1)])
      ultimately show "padded xr p 0 ((n * cout + oc) div (b * cout div b) * cin + c) (y + i) (xx + j)
            * elem wr [n * cout + oc, c, i, j]
          = padded (sample_input n x) p 0 c (y + i) (xx + j) * elem ws [n, oc, c, i, j]"
        by simp
    qed
    finally show "elem cv [0, n * cout + oc, y, xx] =
        (\<Sum>c<cin. \<Sum>i<k. \<Sum>j<k. padded (sample_input n x) p 0 c (y + i) (xx + j)
                                    * elem ws [n, oc, c, i, j])" .
  qed
  then show ?thesis
    using c by (simp add: cv_def)
qed

lemma sample_conv_elem:
  assumes x: "shape x = [b, cin, h, w]" and ws: "shape ws = [b, cout, cin, k, k]"
    and kh: "k \<le> h + 2 * p" and kw: "k \<le> w + 2 * p"
  shows "\<exists>z. conv2d (sample_input n x) (sample_weights n ws) p 1 = Some z \<and>
     shape z = [1, cout, h + 2 * p - k + 1, w + 2 * p - k + 1] \<and>
     (\<forall>oc<cout. \<forall>y xx. elem z [0, oc, y, xx] =
        (\<Sum>c<cin. \<Sum>i<k. \<Sum>j<k. padded (sample_input n x) p 0 c (y + i) (xx + j)
                                    * elem ws [n, oc, c, i, j]))"
  using assms by (simp add: conv2d_def sample_input_def sample_weights_def)


lemma Conv2dWeightModulate_init_fields:
  assumes "Conv2dWeightModulate_init cin cout k demod lr_mul eps rnd = Some self"
  shows "filters self = cout" and "padding self = (k - 1) div 2" and "0 < k" and "0 < cin"
  using assms by (auto simp add: Conv2dWeightModulate_init_def Let_def split: if_splits)

lemma odd_kernel_padding:
  assumes "odd (k::nat)" and "0 < h"
  shows "k \<le> h + 2 * ((k - 1) div 2)" and "h + 2 * ((k - 1) div 2) - k + 1 = h"
proof -
  from assms obtain m where "k = 2 * m + 1" by (auto elim: oddE)
  then show "k \<le> h + 2 * ((k - 1) div 2)" and "h + 2 * ((k - 1) div 2) - k + 1 = h"
    using assms(2) by simp_all
qed

lemma Conv2dWeightModulate_forward_steps:
  assumes ws: "Conv2dWeightModulate_weights self style = Some ws"
    and sws: "shape ws = [b, cout, cin, k, k]"
    and x: "shape x = [b, cin, h, w]"
    and xr: "reshape_infer x [1, - 1, int h, int w] = Some xr"
    and wr: "reshape ws ((b * cout) # drop 2 (shape ws)) = Some wr"
    and f: "filters self = cout"
  shows "Conv2dWeightModulate_forward self x style =
     conv2d xr wr (padding self) b \<bind> (\<lambda>cv. reshape_infer cv [- 1, int cout, int h, int w])"
  using sws wr by (simp add: Conv2dWeightModulate_forward_def x ws xr f)

lemma conv2d_no_groups: "conv2d a wt p 0 = None"
  by (simp add: conv2d_def split: list.splits)

lemma bind_None: "(\<And>a. f a = None) \<Longrightarrow> (m \<bind> f) = None"
  for m :: "'a option" and f :: "'a \<Rightarrow> 'b option"
  by (cases m) simp_all

lemma Conv2dWeightModulate_forward_empty:
  assumes x: "shape x = [b, c, h, w]" and e: "b = 0 \<or> filters self = 0 \<or> h = 0 \<or> w = 0"
  shows "Conv2dWeightModulate_forward self x style = None"
  using e
proof (elim disjE)
  assume "b = 0"
  then show ?thesis
    by (simp add: Conv2dWeightModulate_forward_def x conv2d_no_groups bind_None)
next
  assume "filters self = 0"
  then have "reshape_infer t [- 1, int (filters self), int h, int w] = None" for t :: "fval tensor"
    using reshape_infer_first [of t 0 h w] by simp
  then show ?thesis
    by (simp add: Conv2dWeightModulate_forward_def x bind_None)
next
  assume "h = 0"
  then have "reshape_infer x [1, - 1, int h, int w] = None"
    using reshape_infer_second [of x 0 w] by simp
  then show ?thesis
    by (simp add: Conv2dWeightModulate_forward_def x bind_None)
next
  assume "w = 0"
  then have "reshape_infer x [1, - 1, int h, int w] = None"
    using reshape_infer_second [of x h 0] by simp
  then show ?thesis
    by (simp add: Conv2dWeightModulate_forward_def x bind_None)
qed

lemma conv2d_shape:
  assumes "conv2d a wt p g = Some cv" and "shape a = [N, Cin, H, W]"
    and "shape wt = [Cout, Cg, kH, kW]"
  shows "shape cv = [N, Cout, H + 2 * p - kH + 1, W + 2 * p - kW + 1]"
    and "kH \<le> H + 2 * p" and "kW \<le> W + 2 * p"
  using assms by (auto simp add: conv2d_def split: if_splits)

lemma even_kernel_padding:
  assumes "even (k::nat)" and "0 < k" and "k \<le> h + 2 * ((k - 1) div 2)"
  shows "h + 2 * ((k - 1) div 2) - k + 1 = h - 1" and "0 < h - 1"
proof -
  from assms(1) obtain j where j: "k = 2 * j" by (auto elim: evenE)
  with assms(2) obtain m where "j = Suc m" by (cases j) simp_all
  with j have m: "k = 2 * m + 2" by simp
  then have p: "(k - 1) div 2 = m" by simp
  show "h + 2 * ((k - 1) div 2) - k + 1 = h - 1" and "0 < h - 1"
    using assms(3) unfolding p m by simp_all
qed

lemma smaller_output:
  assumes "0 < (b::nat)" and "0 < c" and "0 < h - 1" and "0 < w - 1"
  shows "b * c * (h - 1) * (w - 1) div (c * h * w) \<noteq> b"
proof -
  have "(h - 1) * (w - 1) < h * w"
    using assms(3,4) by (intro mult_strict_mono) simp_all
  then have "b * c * ((h - 1) * (w - 1)) < b * c * (h * w)"
    using assms(1,2) by simp
  then have lt: "b * c * (h - 1) * (w - 1) < b * (c * h * w)"
    by (simp add: mult.assoc)
  have "b * c * (h - 1) * (w - 1) div (c * h * w) < b"
    using lt assms(2,3,4) by (intro less_mult_imp_div_less) (simp add: mult.commute)
  then show ?thesis by simp
qed

lemma Conv2dWeightModulate_forward_even:
  assumes init: "Conv2dWeightModulate_init cin cout k demod lr_mul eps rnd = Some self"
    and k: "even k"
    and x: "shape x = [b, cin, h, w]" and style: "shape style = [b, cin]"
  shows "Conv2dWeightModulate_forward self x style = None \<or>
     (\<exists>y. Conv2dWeightModulate_forward self x style = Some y \<and> shape y \<noteq> [b, cout, h, w])"
proof (cases "b = 0 \<or> cout = 0 \<or> h = 0 \<or> w = 0")
  case True
  note fields = Conv2dWeightModulate_init_fields [OF init]
  from True have "b = 0 \<or> filters self = 0 \<or> h = 0 \<or> w = 0"
    by (simp add: fields(1))
  from Conv2dWeightModulate_forward_empty [OF x this] show ?thesis by simp
next
  case False
  then have pos: "0 < b" "0 < cout" "0 < h" "0 < w" by simp_all
  let ?p = "(k - 1) div 2"
  note fields = Conv2dWeightModulate_init_fields [OF init]
  from Conv2dWeightModulate_weights_elem [OF init style] obtain ws where
    ws: "Conv2dWeightModulate_weights self style = Some ws"
    and sws: "shape ws = [b, cout, cin, k, k]"
    by (elim exE conjE) (rule that; assumption)
  from input_reshape_elem [OF x pos(3) pos(4)] obtain xr where
    xr: "reshape_infer x [1, - 1, int h, int w] = Some xr"
    and sxr: "shape xr = [1, b * cin, h, w]"
    by (elim exE conjE) (rule that; assumption)
  from weights_reshape_elem [OF sws] obtain wr where
    wr: "reshape ws ((b * cout) # drop 2 (shape ws)) = Some wr"
    and swr: "shape wr = [b * cout, cin, k, k]"
    by (elim exE conjE) (rule that; assumption)
  note fw = Conv2dWeightModulate_forward_steps [OF ws sws x xr wr fields(1)]
  show ?thesis
  proof (cases "conv2d xr wr ?p b")
    case None
    then show ?thesis
      by (simp add: fw fields(2))
  next
    case (Some cv)
    note c = conv2d_shape [OF Some sxr swr]
    note eh = even_kernel_padding [OF k fields(3) c(2)]
    note ew = even_kernel_padding [OF k fields(3) c(3)]
    have scv: "shape cv = [1, b * cout, h - 1, w - 1]"
      using c(1) unfolding eh(1) ew(1) .
    have n: "numel cv = b * cout * (h - 1) * (w - 1)"
      using scv by (simp add: numel_def)
    have f: "Conv2dWeightModulate_forward self x style
        = reshape_infer cv [- 1, int cout, int h, int w]"
      using Some by (simp add: fw fields(2))
    show ?thesis
    proof (cases "reshape_infer cv [- 1, int cout, int h, int w]")
      case None
      then show ?thesis by (simp add: f)
    next
      case (Some y)
      then have "shape y = [numel cv div (cout * h * w), cout, h, w]"
        by (auto simp add: reshape_infer_first reshape_def split: if_splits)
      then have "shape y \<noteq> [b, cout, h, w]"
        using smaller_output [OF pos(1) pos(2) eh(2) ew(2)] unfolding n by simp
      then show ?thesis
        using Some by (simp add: f)
    qed
  qed
qed

text \<open>The layer with an odd \<^verbatim>\<open>kernel_size\<close>: the padding keeps the size of the image, and the
  grouped convolution is the convolution of every sample with its own weights.\<close>

lemma Conv2dWeightModulate_forward_odd:
  assumes init: "Conv2dWeightModulate_init cin cout k demod lr_mul eps rnd = Some self"
    and k: "odd k" and cout: "0 < cout"
    and x: "shape x = [b, cin, h, w]" and b: "0 < b" and h: "0 < h" and w: "0 < w"
    and style: "shape style = [b, cin]"
  shows "\<exists>ws y. Conv2dWeightModulate_weights self style = Some ws \<and>
     shape ws = [b, cout, cin, k, k] \<and>
     (\<forall>n<b. \<forall>oc<cout. \<forall>c<cin. \<forall>i<k. \<forall>j<k.
        (let m = (\<lambda>c i j. elem (conv_weight self) [oc, c, i, j] * Fin (runtime_coef self)
                          * (elem style [n, c] + Fin 1))
         in elem ws [n, oc, c, i, j] =
            (if demod
             then m c i j * (Fin 1 / fsqrt ((\<Sum>c'<cin. \<Sum>i'<k. \<Sum>j'<k. m c' i' j' * m c' i' j')
                                            + Fin eps))
             else m c i j))) \<and>
     Conv2dWeightModulate_forward self x style = Some y \<and>
     shape y = [b, cout, h, w] \<and>
     (\<forall>n<b. \<exists>z. conv2d (sample_input n x) (sample_weights n ws) ((k - 1) div 2) 1 = Some z \<and>
        shape z = [1, cout, h, w] \<and>
        (\<forall>oc<cout. \<forall>yy<h. \<forall>xx<w. elem y [n, oc, yy, xx] = elem z [0, oc, yy, xx]))"
proof -
  let ?p = "(k - 1) div 2"
  note fields = Conv2dWeightModulate_init_fields [OF init]
  note padh = odd_kernel_padding [OF k h]
  note padw = odd_kernel_padding [OF k w]
  from Conv2dWeightModulate_weights_elem [OF init style] obtain ws where
    ws: "Conv2dWeightModulate_weights self style = Some ws"
    and sws: "shape ws = [b, cout, cin, k, k]"
    and ews: "\<forall>n<b. \<forall>oc<cout. \<forall>c<cin. \<forall>i<k. \<forall>j<k.
        (let m = (\<lambda>c i j. elem (conv_weight self) [oc, c, i, j] * Fin (runtime_coef self)
                          * (elem style [n, c] + Fin 1))
         in elem ws [n, oc, c, i, j] =
            (if demod
             then m c i j * (Fin 1 / fsqrt ((\<Sum>c'<cin. \<Sum>i'<k. \<Sum>j'<k. m c' i' j' * m c' i' j')
                                            + Fin eps))
             else m c i j))"
    by (elim exE conjE) (rule that; assumption)
  from input_reshape_elem [OF x h w] obtain xr where
    xr: "reshape_infer x [1, - 1, int h, int w] = Some xr"
    and sxr: "shape xr = [1, b * cin, h, w]"
    and exr: "\<forall>n<b. \<forall>c<cin. \<forall>y<h. \<forall>xx<w. elem xr [0, n * cin + c, y, xx] = elem x [n, c, y, xx]"
    by (elim exE conjE) (rule that; assumption)
  from weights_reshape_elem [OF sws] obtain wr where
    wr: "reshape ws ((b * cout) # drop 2 (shape ws)) = Some wr"
    and swr: "shape wr = [b * cout, cin, k, k]"
    and ewr: "\<forall>n<b. \<forall>oc<cout. \<forall>c<cin. \<forall>i<k. \<forall>j<k.
               elem wr [n * cout + oc, c, i, j] = elem ws [n, oc, c, i, j]"
    by (elim exE conjE) (rule that; assumption)
  from grouped_conv_elem [OF sxr x swr sws exr ewr b padh(1) padw(1)] obtain cv where
    cv: "conv2d xr wr ?p b = Some cv"
    and scv: "shape cv = [1, b * cout, h, w]"
    and ecv: "\<forall>n<b. \<forall>oc<cout. \<forall>y xx. elem cv [0, n * cout + oc, y, xx] =
        (\<Sum>c<cin. \<Sum>i<k. \<Sum>j<k. padded (sample_input n x) ?p 0 c (y + i) (xx + j)
                                    * elem ws [n, oc, c, i, j])"
    unfolding padh(2) padw(2) by (elim exE conjE) (rule that; assumption)
  from output_reshape_elem [OF scv cout h w] obtain y where
    y: "reshape_infer cv [- 1, int cout, int h, int w] = Some y"
    and sy: "shape y = [b, cout, h, w]"
    and ey: "\<forall>n<b. \<forall>oc<cout. \<forall>yy<h. \<forall>xx<w. elem y [n, oc, yy, xx] = elem cv [0, n * cout + oc, yy, xx]"
    by (elim exE conjE) (rule that; assumption)
  have fw: "Conv2dWeightModulate_forward self x style = Some y"
    unfolding Conv2dWeightModulate_forward_steps [OF ws sws x xr wr fields(1)]
    by (simp only: fields(2) cv bind.simps y)
  have per: "\<forall>n<b. \<exists>z. conv2d (sample_input n x) (sample_weights n ws) ?p 1 = Some z \<and>
        shape z = [1, cout, h, w] \<and>
        (\<forall>oc<cout. \<forall>yy<h. \<forall>xx<w. elem y [n, oc, yy, xx] = elem z [0, oc, yy, xx])"
  proof (intro allI impI)
    fix n
    assume n: "n < b"
    from sample_conv_elem [OF x sws padh(1) padw(1), of n] obtain z where
      z: "conv2d (sample_input n x) (sample_weights n ws) ?p 1 = Some z"
      and sz: "shape z = [1, cout, h, w]"
      and ez: "\<forall>oc<cout. \<forall>y xx. elem z [0, oc, y, xx] =
        (\<Sum>c<cin. \<Sum>i<k. \<Sum>j<k. padded (sample_input n x) ?p 0 c (y + i) (xx + j)
                                    * elem ws [n, oc, c, i, j])"
      unfolding padh(2) padw(2) by (elim exE conjE) (rule that; assumption)
    have "\<forall>oc<cout. \<forall>yy<h. \<forall>xx<w. elem y [n, oc, yy, xx] = elem z [0, oc, yy, xx]"
      using ey ecv ez n by simp
    then show "\<exists>z. conv2d (sample_input n x) (sample_weights n ws) ?p 1 = Some z \<and>
        shape z = [1, cout, h, w] \<and>
        (\<forall>oc<cout. \<forall>yy<h. \<forall>xx<w. elem y [n, oc, yy, xx] = elem z [0, oc, yy, xx])"
      using z sz by blast
  qed
  show ?thesis
    apply (rule exI [of _ ws])
    apply (rule exI [of _ y])
    apply (intro conjI)
         apply (fact ws)
        apply (fact sws)
       apply (fact ews)
      apply (fact fw)
     apply (fact sy)
    apply (fact per)
    done
qed


text \<open>Claim C5, as amended. For a layer built by \<^verbatim>\<open>__init__\<close>, an input \<open>x\<close> of shape
  \<open>[b, in_features, h, w]\<close> and a \<open>style\<close> of shape \<open>[b, in_features]\<close>: when \<^verbatim>\<open>kernel_size\<close> is odd
  and \<open>out_features\<close>, \<open>b\<close>, \<open>h\<close>, \<open>w\<close> are positive, \<^verbatim>\<open>forward\<close> returns a tensor of shape
  \<open>[b, out_features, h, w]\<close>; the weights of sample \<open>n\<close> are
  \<^verbatim>\<open>(weight * runtime_coef) * (style[n] + 1)\<close>, each filter multiplied by \<^verbatim>\<open>rsqrt\<close> of the sum of its
  squares plus \<open>eps\<close> when the layer demodulates, and sample \<open>n\<close> of the result is the convolution,
  with padding \<^verbatim>\<open>(kernel_size - 1) // 2\<close>, of \<^verbatim>\<open>x[n:n+1]\<close> with these weights: the grouped
  convolution computes the convolution of every sample. When \<^verbatim>\<open>kernel_size\<close> is even, \<^verbatim>\<open>forward\<close>
  raises or returns a tensor of another shape. When \<open>b\<close>, \<open>out_features\<close>, \<open>h\<close> or \<open>w\<close> is 0,
  \<^verbatim>\<open>forward\<close> raises.\<close>

theorem Conv2dWeightModulate_forward_conv:
  assumes init: "Conv2dWeightModulate_init cin cout k demod lr_mul eps rnd = Some self"
    and x: "shape x = [b, cin, h, w]" and style: "shape style = [b, cin]"
  shows "(odd k \<and> 0 < cout \<and> 0 < b \<and> 0 < h \<and> 0 < w \<longrightarrow>
     (\<exists>ws y. Conv2dWeightModulate_weights self style = Some ws \<and>
     shape ws = [b, cout, cin, k, k] \<and>
     (\<forall>n<b. \<forall>oc<cout. \<forall>c<cin. \<forall>i<k. \<forall>j<k.
        (let m = (\<lambda>c i j. elem (conv_weight self) [oc, c, i, j] * Fin (runtime_coef self)
                          * (elem style [n, c] + Fin 1))
         in elem ws [n, oc, c, i, j] =
            (if demod
             then m c i j * (Fin 1 / fsqrt ((\<Sum>c'<cin. \<Sum>i'<k. \<Sum>j'<k. m c' i' j' * m c' i' j')
                                            + Fin eps))
             else m c i j))) \<and>
     Conv2dWeightModulate_forward self x style = Some y \<and>
     shape y = [b, cout, h, w] \<and>
     (\<forall>n<b. \<exists>z. conv2d (sample_input n x) (sample_weights n ws) ((k - 1) div 2) 1 = Some z \<and>
        shape z = [1, cout, h, w] \<and>
        (\<forall>oc<cout. \<forall>yy<h. \<forall>xx<w. elem y [n, oc, yy, xx] = elem z [0, oc, yy, xx])))) \<and>
   (even k \<longrightarrow>
      Conv2dWeightModulate_forward self x style = None \<or>
      (\<exists>y. Conv2dWeightModulate_forward self x style = Some y \<and> shape y \<noteq> [b, cout, h, w])) \<and>
   (b = 0 \<or> cout = 0 \<or> h = 0 \<or> w = 0 \<longrightarrow> Conv2dWeightModulate_forward self x style = None)"
  apply (intro conjI impI)
    apply (elim conjE)
    apply (erule (4) Conv2dWeightModulate_forward_odd [OF init _ _ x _ _ _ style])
   apply (erule Conv2dWeightModulate_forward_even [OF init _ x style])
  apply (rule Conv2dWeightModulate_forward_empty [OF x])
  apply (simp add: Conv2dWeightModulate_init_fields(1) [OF init])
  done

text \<open>A layer with one \<open>3 \<times> 3\<close> filter whose entries are all 2, on two samples of ones with styles
  0 and 1.\<close>

definition conv0 :: Conv2dWeightModulate where
  "conv0 = the (Conv2dWeightModulate_init 1 1 3 False 1 (1 / 100000000) (\<lambda>_. Fin 2))"

definition style0 :: "fval tensor" where
  "style0 = \<lparr>shape = [2, 1], elem = (\<lambda>idx. Fin (real (idx ! 0)))\<rparr>"

theorem Conv2dWeightModulate_forward_conv_witness:
  "Conv2dWeightModulate_init 1 1 3 False 1 (1 / 100000000) (\<lambda>_. Fin 2) = Some conv0 \<and>
   shape (ones [2, 1, 2, 2]) = [2, 1, 2, 2] \<and> shape style0 = [2, 1] \<and>
   (\<exists>ws y z. Conv2dWeightModulate_weights conv0 style0 = Some ws \<and>
      elem ws [1, 0, 0, 1, 1] = Fin (4 / 3) \<and> elem ws [0, 0, 0, 1, 1] = Fin (2 / 3) \<and>
      Conv2dWeightModulate_forward conv0 (ones [2, 1, 2, 2]) style0 = Some y \<and>
      shape y = [2, 1, 2, 2] \<and>
      conv2d (sample_input 1 (ones [2, 1, 2, 2])) (sample_weights 1 ws) 1 1 = Some z \<and>
      elem y [1, 0, 0, 0] = elem z [0, 0, 0, 0])"
proof -
  have init: "Conv2dWeightModulate_init 1 1 3 False 1 (1 / 100000000) (\<lambda>_. Fin 2) = Some conv0"
    by (simp add: conv0_def Conv2dWeightModulate_init_def)
  have x: "shape (ones [2, 1, 2, 2]) = [2, 1, 2, 2]" by (simp add: ones_def)
  have style: "shape style0 = [2, 1]" by (simp add: style0_def)
  have w: "elem (conv_weight conv0) [0, 0, 1, 1] * Fin (runtime_coef conv0) = Fin (2 / 3)"
    by (simp add: conv0_def Conv2dWeightModulate_init_def tmap_def)
  have hyp: "odd (3::nat) \<and> 0 < (1::nat) \<and> 0 < (2::nat) \<and> 0 < (2::nat) \<and> 0 < (2::nat)"
    by simp
  from Conv2dWeightModulate_forward_conv [OF init x style, THEN conjunct1, THEN mp, OF hyp]
  obtain ws y where
    ws: "Conv2dWeightModulate_weights conv0 style0 = Some ws"
    and ews: "\<forall>n<2. \<forall>oc<1. \<forall>c<1. \<forall>i<3. \<forall>j<3.
        (let m = (\<lambda>c i j. elem (conv_weight conv0) [oc, c, i, j] * Fin (runtime_coef conv0)
                          * (elem style0 [n, c] + Fin 1))
         in elem ws [n, oc, c, i, j] =
            (if False
             then m c i j * (Fin 1 / fsqrt ((\<Sum>c'<1. \<Sum>i'<3. \<Sum>j'<3. m c' i' j' * m c' i' j')
                                            + Fin (1 / 100000000)))
             else m c i j))"
    and fw: "Conv2dWeightModulate_forward conv0 (ones [2, 1, 2, 2]) style0 = Some y"
    and sy: "shape y = [2, 1, 2, 2]"
    and per: "\<forall>n<2. \<exists>z. conv2d (sample_input n (ones [2, 1, 2, 2])) (sample_weights n ws)
                            ((3 - 1) div 2) 1 = Some z \<and>
        shape z = [1, 1, 2, 2] \<and>
        (\<forall>oc<1. \<forall>yy<2. \<forall>xx<2. elem y [n, oc, yy, xx] = elem z [0, oc, yy, xx])"
    by (elim exE conjE) (rule that; assumption)
  have one: "(1::nat) < 2" by simp
  from per [rule_format, OF one] obtain z where
    z': "conv2d (sample_input 1 (ones [2, 1, 2, 2])) (sample_weights 1 ws) ((3 - 1) div 2) 1 = Some z"
    and ezs: "\<forall>oc<1. \<forall>yy<2. \<forall>xx<2. elem y [1, oc, yy, xx] = elem z [0, oc, yy, xx]"
    by (elim exE conjE) (rule that; assumption)
  have z: "conv2d (sample_input 1 (ones [2, 1, 2, 2])) (sample_weights 1 ws) 1 1 = Some z"
    using z' by simp
  have ez: "elem y [1, 0, 0, 0] = elem z [0, 0, 0, 0]"
    using ezs by simp
  have e1: "elem ws [1, 0, 0, 1, 1] = Fin (4 / 3)"
    using ews [rule_format, of 1 0 0 1 1] w by (simp add: style0_def)
  have e0: "elem ws [0, 0, 0, 1, 1] = Fin (2 / 3)"
    using ews [rule_format, of 0 0 0 1 1] w by (simp add: style0_def)
  have "\<exists>ws y z. Conv2dWeightModulate_weights conv0 style0 = Some ws \<and>
      elem ws [1, 0, 0, 1, 1] = Fin (4 / 3) \<and> elem ws [0, 0, 0, 1, 1] = Fin (2 / 3) \<and>
      Conv2dWeightModulate_forward conv0 (ones [2, 1, 2, 2]) style0 = Some y \<and>
      shape y = [2, 1, 2, 2] \<and>
      conv2d (sample_input 1 (ones [2, 1, 2, 2])) (sample_weights 1 ws) 1 1 = Some z \<and>
      elem y [1, 0, 0, 0] = elem z [0, 0, 0, 0]"
    apply (rule exI [of _ ws])
    apply (rule exI [of _ y])
    apply (rule exI [of _ z])
    apply (intro conjI)
          apply (fact ws)
         apply (fact e1)
        apply (fact e0)
       apply (fact fw)
      apply (fact sy)
     apply (fact z)
    apply (fact ez)
    done
  with init x style show ?thesis
    by (intro conjI)
qed

text \<open>
  Claim C5 as stated fails for a kernel of even size: with \<^verbatim>\<open>kernel_size = 2\<close> the padding is 0, the
  convolution of a \<open>2 \<times> 2\<close> input has one entry, and the final reshape to \<open>[-1, 1, 2, 2]\<close> raises.
\<close>

definition conv1 :: Conv2dWeightModulate where
  "conv1 = the (Conv2dWeightModulate_init 1 1 2 False 1 (1 / 100000000) (\<lambda>_. Fin 2))"

theorem Conv2dWeightModulate_forward_counterexample:
  "Conv2dWeightModulate_init 1 1 2 False 1 (1 / 100000000) (\<lambda>_. Fin 2) = Some conv1 \<and>
   shape (ones [1, 1, 2, 2]) = [1, 1, 2, 2] \<and> shape (ones [1, 1]) = [1, 1] \<and>
   Conv2dWeightModulate_forward conv1 (ones [1, 1, 2, 2]) (ones [1, 1]) = None"
proof -
  have init: "Conv2dWeightModulate_init 1 1 2 False 1 (1 / 100000000) (\<lambda>_. Fin 2) = Some conv1"
    by (simp add: conv1_def Conv2dWeightModulate_init_def)
  have x: "shape (ones [1, 1, 2, 2]) = [1, 1, 2, 2]" by (simp add: ones_def)
  have style: "shape (ones [1, 1]) = [1, 1]" by (simp add: ones_def)
  note fields = Conv2dWeightModulate_init_fields [OF init]
  have pos: "0 < (2::nat)" by simp
  from Conv2dWeightModulate_weights_elem [OF init style] obtain ws where
    ws: "Conv2dWeightModulate_weights conv1 (ones [1, 1]) = Some ws"
    and sws: "shape ws = [1, 1, 1, 2, 2]"
    by (elim exE conjE) (rule that; assumption)
  from input_reshape_elem [OF x pos pos] obtain xr where
    xr: "reshape_infer (ones [1, 1, 2, 2]) [1, - 1, int 2, int 2] = Some xr"
    and sxr: "shape xr = [1, 1 * 1, 2, 2]"
    by (elim exE conjE) (rule that; assumption)
  from weights_reshape_elem [OF sws] obtain wr where
    wr: "reshape ws ((1 * 1) # drop 2 (shape ws)) = Some wr"
    and swr: "shape wr = [1 * 1, 1, 2, 2]"
    by (elim exE conjE) (rule that; assumption)
  have "conv2d xr wr 0 1 \<noteq> None \<and> (\<forall>cv. conv2d xr wr 0 1 = Some cv \<longrightarrow> shape cv = [1, 1, 1, 1])"
    using sxr swr by (auto simp add: conv2d_def)
  then obtain cv where cv: "conv2d xr wr 0 1 = Some cv" and scv: "shape cv = [1, 1, 1, 1]"
    by auto
  have "reshape_infer cv [- 1, int 1, int 2, int 2] = None"
    using scv by (simp add: reshape_infer_def numel_def)
  then have "Conv2dWeightModulate_forward conv1 (ones [1, 1, 2, 2]) (ones [1, 1]) = None"
    unfolding Conv2dWeightModulate_forward_steps [OF ws sws x xr wr fields(1)]
    using fields(2) cv by simp
  then show ?thesis
    using init x style by blast
qed

end
